theory Spec2Isabelle
  imports Complex_Main "HOL-Library.AList" "HOL-Library.Multiset" "HOL-Library.Log_Nat"
begin

section \<open>JavaScript numbers\<close>

text \<open>
  Scores and \<^verbatim>\<open>timeLeft\<close> are JavaScript numbers: IEEE 754 binary64 values. A
  \<open>number\<close> is a finite value (a rational; the two zeros are not told apart, no
  operation of the source depends on the sign of a zero), one of the two infinities, or
  NaN. Every arithmetic operation computes the exact result and rounds it to the nearest
  binary64 value, ties to even, as \<open>round64\<close> does: the exponent of the magnitude is
  \<open>floor (log2 x)\<close>, at least -1022 (below that the values are subnormal), the
  magnitude is rounded to a whole multiple of \<open>2 ^ (exponent - 52)\<close>, and a result of
  \<open>2 ^ 1024\<close> or more is an infinity.
\<close>

datatype number = Finite rat | PosInfinity | NegInfinity | NaN

text \<open>\<open>floor (log2 x)\<close> for a positive rational.\<close>

definition ilog2 :: "rat \<Rightarrow> int" where
  "ilog2 x = (if 1 \<le> x then bitlen \<lfloor>x\<rfloor> - 1 else - bitlen (\<lceil>1 / x\<rceil> - 1))"

definition round_half_even :: "rat \<Rightarrow> int" where
  "round_half_even x =
     (let n = \<lfloor>x\<rfloor>; r = x - of_int n
      in if r < 1 / 2 then n else if 1 / 2 < r then n + 1 else if even n then n else n + 1)"

definition exponent :: "rat \<Rightarrow> int" where
  "exponent x = max (ilog2 x) (- 1022)"

definition mantissa :: "rat \<Rightarrow> int" where
  "mantissa x = round_half_even (x / 2 powi (exponent x - 52))"

definition round64 :: "rat \<Rightarrow> number" where
  "round64 x =
     (if x = 0 then Finite 0
      else
        (let e = exponent \<bar>x\<bar>; n = mantissa \<bar>x\<bar>
         in if 1023 < e \<or> (e = 1023 \<and> 2 ^ 53 \<le> n)
            then (if 0 < x then PosInfinity else NegInfinity)
            else Finite (sgn x * of_int n * 2 powi (e - 52))))"

text \<open>The operators \<^verbatim>\<open>+\<close>, \<^verbatim>\<open>-\<close>, \<^verbatim>\<open>*\<close>, \<^verbatim>\<open>/\<close> and \<^verbatim>\<open>Math.floor\<close> on numbers. A zero
  divisor is taken as the positive zero; the source divides by the literal 20 only.\<close>

fun num_add :: "number \<Rightarrow> number \<Rightarrow> number" where
  "num_add (Finite a) (Finite b) = round64 (a + b)"
| "num_add NaN _ = NaN"
| "num_add _ NaN = NaN"
| "num_add PosInfinity NegInfinity = NaN"
| "num_add NegInfinity PosInfinity = NaN"
| "num_add PosInfinity _ = PosInfinity"
| "num_add _ PosInfinity = PosInfinity"
| "num_add NegInfinity _ = NegInfinity"
| "num_add _ NegInfinity = NegInfinity"

fun num_sub :: "number \<Rightarrow> number \<Rightarrow> number" where
  "num_sub (Finite a) (Finite b) = round64 (a - b)"
| "num_sub NaN _ = NaN"
| "num_sub _ NaN = NaN"
| "num_sub PosInfinity PosInfinity = NaN"
| "num_sub NegInfinity NegInfinity = NaN"
| "num_sub PosInfinity _ = PosInfinity"
| "num_sub _ PosInfinity = NegInfinity"
| "num_sub NegInfinity _ = NegInfinity"
| "num_sub _ NegInfinity = PosInfinity"

fun num_mul :: "number \<Rightarrow> number \<Rightarrow> number" where
  "num_mul (Finite a) (Finite b) = round64 (a * b)"
| "num_mul NaN _ = NaN"
| "num_mul _ NaN = NaN"
| "num_mul (Finite a) PosInfinity =
     (if a = 0 then NaN else if 0 < a then PosInfinity else NegInfinity)"
| "num_mul (Finite a) NegInfinity =
     (if a = 0 then NaN else if 0 < a then NegInfinity else PosInfinity)"
| "num_mul PosInfinity (Finite b) =
     (if b = 0 then NaN else if 0 < b then PosInfinity else NegInfinity)"
| "num_mul NegInfinity (Finite b) =
     (if b = 0 then NaN else if 0 < b then NegInfinity else PosInfinity)"
| "num_mul PosInfinity PosInfinity = PosInfinity"
| "num_mul NegInfinity NegInfinity = PosInfinity"
| "num_mul PosInfinity NegInfinity = NegInfinity"
| "num_mul NegInfinity PosInfinity = NegInfinity"

fun num_div :: "number \<Rightarrow> number \<Rightarrow> number" where
  "num_div (Finite a) (Finite b) =
     (if b = 0 then (if a = 0 then NaN else if 0 < a then PosInfinity else NegInfinity)
      else round64 (a / b))"
| "num_div NaN _ = NaN"
| "num_div _ NaN = NaN"
| "num_div (Finite a) _ = Finite 0"
| "num_div PosInfinity (Finite b) = (if 0 \<le> b then PosInfinity else NegInfinity)"
| "num_div NegInfinity (Finite b) = (if 0 \<le> b then NegInfinity else PosInfinity)"
| "num_div _ _ = NaN"

fun num_floor :: "number \<Rightarrow> number" where
  "num_floor (Finite a) = Finite (of_int \<lfloor>a\<rfloor>)"
| "num_floor z = z"

text \<open>The comparison \<^verbatim>\<open><=\<close> of numbers: false whenever an operand is NaN.\<close>

fun num_le :: "number \<Rightarrow> number \<Rightarrow> bool" where
  "num_le (Finite a) (Finite b) = (a \<le> b)"
| "num_le NaN _ = False"
| "num_le _ NaN = False"
| "num_le NegInfinity _ = True"
| "num_le _ PosInfinity = True"
| "num_le _ NegInfinity = False"
| "num_le PosInfinity _ = False"

section \<open>Data model of src/index.js\<close>

text \<open>
  The server keeps one \<^verbatim>\<open>GameManager\<close> whose only field is the \<^verbatim>\<open>Map\<close> \<^verbatim>\<open>games\<close>
  from pin to game object. A JavaScript \<^verbatim>\<open>Map\<close> iterates in insertion order and
  \<^verbatim>\<open>removePlayer\<close> depends on that order, so the registry is an association list:
  \<open>map_of\<close> is \<^verbatim>\<open>get\<close>, \<open>AList.update\<close> is \<^verbatim>\<open>set\<close> (a new key goes last, an existing
  key keeps its place) and \<open>AList.delete\<close> is \<^verbatim>\<open>delete\<close>. Game and player objects are
  reachable only through the registry, so mutation in place is modelled by writing the
  changed object back under its pin.

  Socket ids, pins and nicknames are strings, answer indices are integers and scores
  are numbers. The \<^verbatim>\<open>timeLeft\<close> of an event is the number as the event's payload
  writes it, a rational; the handler gets the binary64 value that the transport parses
  it to, \<open>round64 timeLeft\<close>.
\<close>

datatype phase = LOBBY | QUESTION | RESULT | LEADERBOARD | END

record player =
  id' :: string
  nickname :: string
  score :: number
  streak :: int

record question =
  text' :: string
  options :: "string list"
  correctIndex :: int
  timeLimit :: "nat option"

record game =
  pin :: string
  hostId :: string
  players :: "player list"
  questions :: "question list"
  currentQuestionIndex :: int
  state :: phase
  answers :: "(int \<times> (string \<times> int) list) list"

type_synonym registry = "(string \<times> game) list"

text \<open>The value returned by \<^verbatim>\<open>removePlayer\<close>: \<^verbatim>\<open>{ pin, game }\<close> or
  \<^verbatim>\<open>{ pin, game, isHost: true }\<close>; an absent \<^verbatim>\<open>isHost\<close> is falsy.\<close>

record removal =
  rpin :: string
  rgame :: game
  isHost :: bool

subsection \<open>Outbound messages and exceptions\<close>

datatype message =
    game_created string
  | game_started
  | new_question_host "question option"
  | new_question_player string "string list" nat int nat
  | game_over "player list"
  | question_results int "player list"
  | player_joined "player list"
  | joined_success string string
  | error string
  | player_answered string nat
  | host_disconnected
  | player_left "player list"

text \<open>\<open>socket_join s r\<close> is \<^verbatim>\<open>socket.join(r)\<close> on socket \<open>s\<close>, \<open>socket_emit s m\<close> is
  \<^verbatim>\<open>socket.emit\<close> on socket \<open>s\<close>, \<open>io_to r m\<close> is \<^verbatim>\<open>io.to(r).emit\<close> and
  \<open>io_to_except r x m\<close> is \<^verbatim>\<open>io.to(r).except(x).emit\<close>.\<close>

datatype effect =
    socket_join string string
  | socket_emit string message
  | io_to string message
  | io_to_except string string message

datatype exn = TypeError

text \<open>What a handler leaves behind: the registry as it is when the handler ends, the
  messages sent in order, and the exception that ended it, if any. A handler that throws
  keeps the mutations and the messages made before the throw.\<close>

record outcome =
  server :: registry
  effects :: "effect list"
  thrown :: "exn option"

subsection \<open>JavaScript array and object primitives\<close>

text \<open>\<^verbatim>\<open>xs[i]\<close>: \<^verbatim>\<open>undefined\<close> (here \<open>None\<close>) outside \<open>0 .. length - 1\<close>.\<close>

definition at_index :: "'a list \<Rightarrow> int \<Rightarrow> 'a option" where
  "at_index xs i = (if 0 \<le> i \<and> i < int (length xs) then Some (xs ! nat i) else None)"

text \<open>\<^verbatim>\<open>xs.findIndex(P)\<close>, with \<open>None\<close> for \<^verbatim>\<open>-1\<close>.\<close>

fun findIndex :: "('a \<Rightarrow> bool) \<Rightarrow> 'a list \<Rightarrow> nat option" where
  "findIndex P [] = None"
| "findIndex P (x # xs) = (if P x then Some 0 else map_option Suc (findIndex P xs))"

text \<open>\<^verbatim>\<open>xs.splice(i, 1)\<close> for an index in range.\<close>

definition splice1 :: "nat \<Rightarrow> 'a list \<Rightarrow> 'a list" where
  "splice1 i xs = take i xs @ drop (Suc i) xs"

text \<open>\<^verbatim>\<open>const p = xs.find(P); if (p) p = f(p)\<close> with the object changed in place: the first
  element that satisfies \<open>P\<close> is replaced, a list without one is left as it is.\<close>

fun find_mutate :: "('a \<Rightarrow> bool) \<Rightarrow> ('a \<Rightarrow> 'a) \<Rightarrow> 'a list \<Rightarrow> 'a list" where
  "find_mutate P f [] = []"
| "find_mutate P f (x # xs) = (if P x then f x # xs else x # find_mutate P f xs)"

text \<open>Truthiness of \<^verbatim>\<open>obj[key]\<close> for an object that holds numbers: a missing key is
  \<^verbatim>\<open>undefined\<close>, and the number 0 is falsy as well.\<close>

definition truthy_entry :: "(string \<times> int) list \<Rightarrow> string \<Rightarrow> bool" where
  "truthy_entry obj k = (case map_of obj k of None \<Rightarrow> False | Some v \<Rightarrow> v \<noteq> 0)"

section \<open>GameManager\<close>

text \<open>\<^verbatim>\<open>createGame\<close> draws random pins until one is free. The draws are an input: the
  successive values of \<^verbatim>\<open>Math.floor(100000 + Math.random() * 900000).toString()\<close>. The
  loop ends at the first free draw; \<open>None\<close> says that the given draws were all taken, where
  the source keeps drawing.\<close>

fun fresh_pin :: "string list \<Rightarrow> registry \<Rightarrow> string option" where
  "fresh_pin [] games = None"
| "fresh_pin (d # draws) games =
     (if map_of games d \<noteq> None then fresh_pin draws games else Some d)"

definition createGame :: "string \<Rightarrow> string list \<Rightarrow> registry \<Rightarrow> (string \<times> registry) option" where
  "createGame hostSocketId draws games =
     (case fresh_pin draws games of
        None \<Rightarrow> None
      | Some p \<Rightarrow>
          Some (p, AList.update p
                 \<lparr>pin = p, hostId = hostSocketId, players = [], questions = [],
                  currentQuestionIndex = - 1, state = LOBBY, answers = []\<rparr> games))"

definition getGame :: "string \<Rightarrow> registry \<Rightarrow> game option" where
  "getGame p games = map_of games p"

definition addPlayer :: "string \<Rightarrow> player \<Rightarrow> registry \<Rightarrow> bool \<times> registry" where
  "addPlayer p pl games =
     (case map_of games p of
        Some g \<Rightarrow> (True, AList.update p (g\<lparr>players := players g @ [pl]\<rparr>) games)
      | None \<Rightarrow> (False, games))"

text \<open>The loop of \<^verbatim>\<open>removePlayer\<close> over \<^verbatim>\<open>this.games.entries()\<close>: the entries still to
  visit, and the whole registry that the body changes. The first entry in which the
  socket is a player or the host ends the loop.\<close>

fun removePlayer_scan :: "string \<Rightarrow> registry \<Rightarrow> registry \<Rightarrow> removal option \<times> registry" where
  "removePlayer_scan socketId [] games = (None, games)"
| "removePlayer_scan socketId ((p, g) # rest) games =
     (case findIndex (\<lambda>pl. id' pl = socketId) (players g) of
        Some playerIndex \<Rightarrow>
          (let g' = g\<lparr>players := splice1 playerIndex (players g)\<rparr>
           in (Some \<lparr>rpin = p, rgame = g', isHost = False\<rparr>, AList.update p g' games))
      | None \<Rightarrow>
          if hostId g = socketId
          then (Some \<lparr>rpin = p, rgame = g, isHost = True\<rparr>, AList.delete p games)
          else removePlayer_scan socketId rest games)"

definition removePlayer :: "string \<Rightarrow> registry \<Rightarrow> removal option \<times> registry" where
  "removePlayer socketId games = removePlayer_scan socketId games games"

section \<open>Helpers of the socket handlers\<close>

text \<open>\<^verbatim>\<open>Array.prototype.sort\<close> with the comparator \<^verbatim>\<open>(a, b) => b.score - a.score\<close>.
  The sort is stable: \<open>a\<close> stays before a later \<open>b\<close> unless the comparator is
  positive (a NaN result counts as 0). The language fixes the result for a consistent
  comparator, which this one is on binary64 scores of which none is NaN. With a NaN among
  the scores the order is left to the engine; the model then gives the arrangement that
  insertion from the right produces, and the properties below use of it only that it is
  an arrangement of the same players.\<close>

definition compareFn :: "player \<Rightarrow> player \<Rightarrow> number" where
  "compareFn a b = num_sub (score b) (score a)"

definition stays_before :: "player \<Rightarrow> player \<Rightarrow> bool" where
  "stays_before a b =
     (case compareFn a b of
        Finite v \<Rightarrow> v \<le> 0 | NegInfinity \<Rightarrow> True | PosInfinity \<Rightarrow> False | NaN \<Rightarrow> True)"

fun insert_sorted :: "player \<Rightarrow> player list \<Rightarrow> player list" where
  "insert_sorted a [] = [a]"
| "insert_sorted a (b # bs) = (if stays_before a b then a # b # bs else b # insert_sorted a bs)"

definition js_sort :: "player list \<Rightarrow> player list" where
  "js_sort ps = foldr insert_sorted ps []"

text \<open>\<^verbatim>\<open>getLeaderboard\<close> calls \<^verbatim>\<open>sort\<close> on \<^verbatim>\<open>game.players\<close> itself, which sorts the
  array in place, and returns a copy of the first five. The function returns the
  leaderboard and the game as the call leaves it.\<close>

definition getLeaderboard :: "game \<Rightarrow> player list \<times> game" where
  "getLeaderboard g =
     (let sorted = js_sort (players g)
      in (take 5 sorted, g\<lparr>players := sorted\<rparr>))"

text \<open>\<^verbatim>\<open>question.timeLimit || 20\<close>: an absent limit and the limit 0 are both falsy.\<close>

definition timeLimit_or_default :: "question \<Rightarrow> nat" where
  "timeLimit_or_default q =
     (case timeLimit q of None \<Rightarrow> 20 | Some t \<Rightarrow> if t = 0 then 20 else t)"

text \<open>\<^verbatim>\<open>sendQuestion\<close> reads \<^verbatim>\<open>game.questions[game.currentQuestionIndex]\<close> with no bounds
  check. The host message is sent with whatever was read; the payload for the players
  reads \<^verbatim>\<open>question.text\<close>, which throws a TypeError when the question is
  \<^verbatim>\<open>undefined\<close>.\<close>

definition sendQuestion :: "string \<Rightarrow> registry \<Rightarrow> effect list \<times> exn option" where
  "sendQuestion p games =
     (case getGame p games of
        None \<Rightarrow> ([], Some TypeError)
      | Some g \<Rightarrow>
          (case at_index (questions g) (currentQuestionIndex g) of
             None \<Rightarrow> ([io_to (hostId g) (new_question_host None)], Some TypeError)
           | Some q \<Rightarrow>
               ([io_to (hostId g) (new_question_host (Some q)),
                 io_to_except p (hostId g)
                   (new_question_player (text' q) (options q) (timeLimit_or_default q)
                      (currentQuestionIndex g) (length (questions g)))],
                None)))"

text \<open>\<^verbatim>\<open>500 + Math.floor(500 * (timeLeft / 20))\<close>\<close>

definition points :: "number \<Rightarrow> number" where
  "points timeLeft =
     num_add (Finite 500) (num_floor (num_mul (Finite 500) (num_div timeLeft (Finite 20))))"

definition unchanged :: "registry \<Rightarrow> outcome" where
  "unchanged games = \<lparr>server = games, effects = [], thrown = None\<rparr>"

section \<open>Socket handlers\<close>

text \<open>Each handler takes the id of the socket the event arrived on, the event's
  arguments and the registry.\<close>

definition create_game :: "string \<Rightarrow> string list \<Rightarrow> question list \<Rightarrow> registry \<Rightarrow> outcome option" where
  "create_game sid draws qs games =
     (case createGame sid draws games of
        None \<Rightarrow> None
      | Some (p, games1) \<Rightarrow>
          (case getGame p games1 of
             None \<Rightarrow> Some \<lparr>server = games1, effects = [], thrown = Some TypeError\<rparr>
           | Some g \<Rightarrow>
               Some \<lparr>server = AList.update p (g\<lparr>questions := qs\<rparr>) games1,
                     effects = [socket_join sid p, socket_emit sid (game_created p)],
                     thrown = None\<rparr>))"

definition start_game :: "string \<Rightarrow> string \<Rightarrow> registry \<Rightarrow> outcome" where
  "start_game sid p games =
     (case getGame p games of
        None \<Rightarrow> unchanged games
      | Some g \<Rightarrow>
          if hostId g = sid then
            (let games1 = AList.update p (g\<lparr>state := QUESTION, currentQuestionIndex := 0\<rparr>) games;
                 (sent, ex) = sendQuestion p games1
             in \<lparr>server = games1, effects = io_to p game_started # sent, thrown = ex\<rparr>)
          else unchanged games)"

definition next_question :: "string \<Rightarrow> string \<Rightarrow> registry \<Rightarrow> outcome" where
  "next_question sid p games =
     (case getGame p games of
        None \<Rightarrow> unchanged games
      | Some g \<Rightarrow>
          if hostId g = sid then
            (let i = currentQuestionIndex g + 1 in
             if i < int (length (questions g)) then
               (let games1 = AList.update p
                      (g\<lparr>currentQuestionIndex := i, state := QUESTION,
                         answers := AList.update i [] (answers g)\<rparr>) games;
                    (sent, ex) = sendQuestion p games1
                in \<lparr>server = games1, effects = sent, thrown = ex\<rparr>)
             else
               (let (board, g1) = getLeaderboard (g\<lparr>currentQuestionIndex := i, state := END\<rparr>)
                in \<lparr>server = AList.update p g1 games,
                    effects = [io_to p (game_over board)], thrown = None\<rparr>))
          else unchanged games)"

text \<open>\<^verbatim>\<open>show_results\<close> sets the state first and then builds the payload, reading
  \<^verbatim>\<open>game.questions[game.currentQuestionIndex].correctIndex\<close> before it calls
  \<^verbatim>\<open>getLeaderboard\<close>.\<close>

definition show_results :: "string \<Rightarrow> string \<Rightarrow> registry \<Rightarrow> outcome" where
  "show_results sid p games =
     (case getGame p games of
        None \<Rightarrow> unchanged games
      | Some g \<Rightarrow>
          if hostId g = sid then
            (let g1 = g\<lparr>state := RESULT\<rparr> in
             case at_index (questions g1) (currentQuestionIndex g1) of
               None \<Rightarrow> \<lparr>server = AList.update p g1 games, effects = [], thrown = Some TypeError\<rparr>
             | Some q \<Rightarrow>
                 (let (board, g2) = getLeaderboard g1
                  in \<lparr>server = AList.update p g2 games,
                      effects = [io_to p (question_results (correctIndex q) board)],
                      thrown = None\<rparr>))
          else unchanged games)"

definition join_game :: "string \<Rightarrow> string \<Rightarrow> string \<Rightarrow> registry \<Rightarrow> outcome" where
  "join_game sid p nick games =
     (case getGame p games of
        None \<Rightarrow>
          \<lparr>server = games,
           effects = [socket_emit sid (error ''Game not found or already started'')],
           thrown = None\<rparr>
      | Some g \<Rightarrow>
          if state g = LOBBY then
            (let pl = \<lparr>id' = sid, nickname = nick, score = Finite 0, streak = 0\<rparr>;
                 (added, games1) = addPlayer p pl games;
                 shown = (case getGame p games1 of Some g1 \<Rightarrow> players g1 | None \<Rightarrow> [])
             in \<lparr>server = games1,
                 effects = [socket_join sid p, io_to p (player_joined shown),
                            socket_emit sid (joined_success p nick)],
                 thrown = None\<rparr>)
          else
            \<lparr>server = games,
             effects = [socket_emit sid (error ''Game not found or already started'')],
             thrown = None\<rparr>)"

text \<open>\<^verbatim>\<open>submit_answer\<close>. The guard against a second answer tests the recorded answer for
  truthiness, \<^verbatim>\<open>if (game.answers[i][socket.id]) return\<close>. The score is updated with
  \<^verbatim>\<open>player.score += points\<close>, an addition of numbers.\<close>

definition submit_answer :: "string \<Rightarrow> string \<Rightarrow> int \<Rightarrow> rat \<Rightarrow> registry \<Rightarrow> outcome" where
  "submit_answer sid p answerIndex timeLeft games =
     (case getGame p games of
        None \<Rightarrow> unchanged games
      | Some g \<Rightarrow>
          if state g = QUESTION then
            (case at_index (questions g) (currentQuestionIndex g) of
               None \<Rightarrow> \<lparr>server = games, effects = [], thrown = Some TypeError\<rparr>
             | Some currentQ \<Rightarrow>
                 (let isCorrect = (correctIndex currentQ = answerIndex);
                      i = currentQuestionIndex g;
                      answers1 = (case map_of (answers g) i of
                                    None \<Rightarrow> AList.update i [] (answers g)
                                  | Some _ \<Rightarrow> answers g);
                      given = (case map_of answers1 i of Some m \<Rightarrow> m | None \<Rightarrow> [])
                  in
                  if truthy_entry given sid then
                    \<lparr>server = AList.update p (g\<lparr>answers := answers1\<rparr>) games,
                     effects = [], thrown = None\<rparr>
                  else
                    (let given1 = AList.update sid answerIndex given;
                         answers2 = AList.update i given1 answers1;
                         players1 =
                           (if isCorrect then
                              find_mutate (\<lambda>pl. id' pl = sid)
                                (\<lambda>pl. pl\<lparr>score := num_add (score pl) (points (round64 timeLeft)),
                                         streak := streak pl + 1\<rparr>) (players g)
                            else
                              find_mutate (\<lambda>pl. id' pl = sid)
                                (\<lambda>pl. pl\<lparr>streak := 0\<rparr>) (players g))
                     in \<lparr>server = AList.update p
                                    (g\<lparr>answers := answers2, players := players1\<rparr>) games,
                         effects = [io_to (hostId g)
                                      (player_answered sid (length given1))],
                         thrown = None\<rparr>)))
          else unchanged games)"

definition disconnect :: "string \<Rightarrow> registry \<Rightarrow> outcome" where
  "disconnect sid games =
     (case removePlayer sid games of
        (None, games1) \<Rightarrow> unchanged games1
      | (Some r, games1) \<Rightarrow>
          if isHost r then
            \<lparr>server = games1, effects = [io_to (rpin r) host_disconnected], thrown = None\<rparr>
          else
            \<lparr>server = games1, effects = [io_to (rpin r) (player_left (players (rgame r)))],
             thrown = None\<rparr>)"

section \<open>Events and runs\<close>

datatype event =
    CreateGame string "string list" "question list"
  | StartGame string string
  | NextQuestion string string
  | ShowResults string string
  | JoinGame string string string
  | SubmitAnswer string string int rat
  | Disconnect string

fun step :: "registry \<Rightarrow> event \<Rightarrow> outcome option" where
  "step games (CreateGame sid draws qs) = create_game sid draws qs games"
| "step games (StartGame sid p) = Some (start_game sid p games)"
| "step games (NextQuestion sid p) = Some (next_question sid p games)"
| "step games (ShowResults sid p) = Some (show_results sid p games)"
| "step games (JoinGame sid p nick) = Some (join_game sid p nick games)"
| "step games (SubmitAnswer sid p answerIndex timeLeft) =
     Some (submit_answer sid p answerIndex timeLeft games)"
| "step games (Disconnect sid) = Some (disconnect sid games)"

text \<open>The server handles one event to completion before the next. A run gives the
  registry at its end and the exception that ended it: it stops at the first handler that
  throws, with the registry as that handler left it. \<open>None\<close> is a \<^verbatim>\<open>create_game\<close>
  whose draws were all taken.\<close>

fun run :: "registry \<Rightarrow> event list \<Rightarrow> (registry \<times> exn option) option" where
  "run games [] = Some (games, None)"
| "run games (e # es) =
     (case step games e of
        None \<Rightarrow> None
      | Some r \<Rightarrow>
          (case thrown r of
             None \<Rightarrow> run (server r) es
           | Some x \<Rightarrow> Some (server r, Some x)))"

section \<open>Vocabulary of the properties\<close>

text \<open>The values that \<open>round64\<close> rounds a positive rational to, before the test for
  overflow, and the rationals that are binary64 values.\<close>

definition rounded :: "rat \<Rightarrow> rat" where
  "rounded x = of_int (mantissa x) * 2 powi (exponent x - 52)"

definition is_double :: "rat \<Rightarrow> bool" where
  "is_double x = (round64 x = Finite x)"

text \<open>A score that is a non-negative whole number or Infinity.\<close>

fun whole_score :: "number \<Rightarrow> bool" where
  "whole_score (Finite r) = (0 \<le> r \<and> of_int \<lfloor>r\<rfloor> = r \<and> is_double r)"
| "whole_score PosInfinity = True"
| "whole_score z = False"

text \<open>The host of a game is not among its players.\<close>

definition host_not_player :: "game \<Rightarrow> bool" where
  "host_not_player g = (hostId g \<notin> set (map id' (players g)))"

text \<open>A \<^verbatim>\<open>join_game\<close> into game \<open>p\<close> that the handler accepts and that comes from the
  socket that hosts \<open>p\<close>; a run without one.\<close>

fun host_joins :: "string \<Rightarrow> registry \<Rightarrow> event \<Rightarrow> bool" where
  "host_joins p games (JoinGame sid p' nick) =
     (p' = p \<and> (case getGame p games of
                   Some g \<Rightarrow> hostId g = sid \<and> state g = LOBBY
                 | None \<Rightarrow> False))"
| "host_joins p games _ = False"

fun no_host_join :: "string \<Rightarrow> registry \<Rightarrow> event list \<Rightarrow> bool" where
  "no_host_join p games [] = True"
| "no_host_join p games (e # es) =
     (\<not> host_joins p games e \<and>
      (case step games e of
         None \<Rightarrow> True
       | Some r \<Rightarrow> (case thrown r of None \<Rightarrow> no_host_join p (server r) es | Some x \<Rightarrow> True)))"

text \<open>A \<^verbatim>\<open>start_game\<close> by the host of game \<open>p\<close> while its index is already
  positive; a run in which game \<open>p\<close> stays registered and is never restarted so.\<close>

fun restarts :: "string \<Rightarrow> registry \<Rightarrow> event \<Rightarrow> bool" where
  "restarts p games (StartGame sid p') =
     (p' = p \<and> (case getGame p games of
                   Some g \<Rightarrow> hostId g = sid \<and> 0 < currentQuestionIndex g
                 | None \<Rightarrow> False))"
| "restarts p games _ = False"

fun kept :: "string \<Rightarrow> registry \<Rightarrow> event list \<Rightarrow> bool" where
  "kept p games [] = True"
| "kept p games (e # es) =
     (\<not> restarts p games e \<and>
      (case step games e of
         None \<Rightarrow> True
       | Some r \<Rightarrow>
           getGame p (server r) \<noteq> None \<and>
           (case thrown r of None \<Rightarrow> kept p (server r) es | Some x \<Rightarrow> True)))"

text \<open>A player after an event is the player before it when the socket id and the
  nickname are the same and the score is the same or higher. A player list has evolved
  from another with no score lowered when its players are, one for one and in its order,
  players of the other with the scores raised: none is counted twice, some may be gone.\<close>

definition raised :: "player \<Rightarrow> player \<Rightarrow> bool" where
  "raised pl pl' =
     (id' pl = id' pl' \<and> nickname pl = nickname pl' \<and>
      (score pl' = score pl \<or> num_le (score pl) (score pl')))"

definition scores_raised :: "player list \<Rightarrow> player list \<Rightarrow> bool" where
  "scores_raised ps ps' = (\<exists>qs. mset qs \<subseteq># mset ps \<and> list_all2 raised qs ps')"

text \<open>The \<^verbatim>\<open>timeLeft\<close> of a \<^verbatim>\<open>submit_answer\<close> is at least \<open>lo\<close>.\<close>

fun timeLeft_from :: "rat \<Rightarrow> event \<Rightarrow> bool" where
  "timeLeft_from lo (SubmitAnswer sid p answerIndex timeLeft) = (lo \<le> timeLeft)"
| "timeLeft_from lo _ = True"

text \<open>An outbound \<^verbatim>\<open>error\<close> message, and a \<^verbatim>\<open>join_game\<close> whose pin names no game or
  a game that has left the lobby.\<close>

fun is_error :: "effect \<Rightarrow> bool" where
  "is_error (socket_emit s (error txt)) = True"
| "is_error (io_to r (error txt)) = True"
| "is_error (io_to_except r x (error txt)) = True"
| "is_error _ = False"

fun join_rejected :: "registry \<Rightarrow> event \<Rightarrow> bool" where
  "join_rejected games (JoinGame sid p nick) =
     (case getGame p games of None \<Rightarrow> True | Some g \<Rightarrow> state g \<noteq> LOBBY)"
| "join_rejected games _ = False"

section \<open>A sample game\<close>

text \<open>A quiz of two questions, hosted by socket \<open>h\<close> under pin 482913, with the players
  Ana (socket \<open>a\<close>) and Bo (socket \<open>b\<close>): in the lobby, and with the first question
  open.\<close>

definition demo_quiz :: "question list" where
  "demo_quiz =
     [\<lparr>text' = ''2 + 2'', options = [''3'', ''4''], correctIndex = 1, timeLimit = None\<rparr>,
      \<lparr>text' = ''3 * 3'', options = [''9'', ''6''], correctIndex = 0, timeLimit = Some 30\<rparr>]"

definition ana :: player where
  "ana = \<lparr>id' = ''a'', nickname = ''Ana'', score = Finite 0, streak = 0\<rparr>"

definition bo :: player where
  "bo = \<lparr>id' = ''b'', nickname = ''Bo'', score = Finite 0, streak = 0\<rparr>"

definition demo_game :: game where
  "demo_game =
     \<lparr>pin = ''482913'', hostId = ''h'', players = [ana, bo], questions = demo_quiz,
      currentQuestionIndex = 0, state = QUESTION, answers = []\<rparr>"

definition demo_lobby :: registry where
  "demo_lobby = [(''482913'', demo_game\<lparr>currentQuestionIndex := - 1, state := LOBBY\<rparr>)]"

definition demo_round :: registry where
  "demo_round = [(''482913'', demo_game)]"

text \<open>The sample game after Bo has answered question 0 correctly with \<^verbatim>\<open>timeLeft\<close>
  15, and the registry after the host has moved past the last question.\<close>

definition demo_scored :: game where
  "demo_scored =
     demo_game\<lparr>players := [ana, bo\<lparr>score := Finite 875, streak := 1\<rparr>],
               answers := [(0, [(''b'', 1)])]\<rparr>"

definition demo_end :: registry where
  "demo_end =
     [(''482913'', demo_game\<lparr>currentQuestionIndex := 2, state := END, answers := [(1, [])]\<rparr>)]"

text \<open>The registry after socket \<open>h\<close> has created two games, 111111 and then 222222, and
  the registry in which the first of the two is hosted by another socket \<open>k\<close>.\<close>

definition fresh_game :: "string \<Rightarrow> string \<Rightarrow> game" where
  "fresh_game p h =
     \<lparr>pin = p, hostId = h, players = [], questions = demo_quiz,
      currentQuestionIndex = - 1, state = LOBBY, answers = []\<rparr>"

definition demo_two :: registry where
  "demo_two = [(''111111'', fresh_game ''111111'' ''h''), (''222222'', fresh_game ''222222'' ''h'')]"

definition demo_other :: registry where
  "demo_other = [(''111111'', fresh_game ''111111'' ''k''), (''222222'', fresh_game ''222222'' ''h'')]"

text \<open>The registry after socket \<open>h\<close> has created game 482913 and joined it as the
  player Hal.\<close>

definition demo_host_in :: registry where
  "demo_host_in =
     [(''482913'', (fresh_game ''482913'' ''h'')
         \<lparr>players := [\<lparr>id' = ''h'', nickname = ''Hal'', score = Finite 0, streak = 0\<rparr>]\<rparr>)]"

section \<open>Facts about binary64 rounding\<close>

subsection \<open>Powers of two and the exponent\<close>

lemma powi_nat: "0 \<le> e \<Longrightarrow> (2::rat) powi e = 2 ^ nat e"
  by (simp add: power_int_def)

lemma powi_neg: "0 \<le> c \<Longrightarrow> (2::rat) powi (- c) = inverse (2 ^ nat c)"
  by (simp add: power_int_minus powi_nat)

lemma powi_le: "a \<le> b \<Longrightarrow> (2::rat) powi a \<le> 2 powi b"
  by (rule power_int_increasing) simp_all

lemma powi_less: "a < b \<Longrightarrow> (2::rat) powi a < 2 powi b"
  by (rule power_int_strict_increasing) simp_all

lemma powi_split: "(2::rat) powi (e + 1) = 2 ^ 53 * 2 powi (e - 52)"
proof -
  have "(2::rat) powi (e + 1) = 2 powi (53 + (e - 52))" by (simp add: add.commute)
  also have "\<dots> = 2 powi 53 * 2 powi (e - 52)" by (rule power_int_add) simp
  finally show ?thesis by simp
qed

lemma powi_split': "(2::rat) powi e = 2 ^ 52 * 2 powi (e - 52)"
proof -
  have "(2::rat) powi e = 2 powi (52 + (e - 52))" by (simp add: add.commute)
  also have "\<dots> = 2 powi 52 * 2 powi (e - 52)" by (rule power_int_add) simp
  finally show ?thesis by simp
qed

lemma ilog2_bounds:
  assumes "0 < x"
  shows "2 powi (ilog2 x) \<le> x \<and> x < 2 powi (ilog2 x + 1)"
proof (cases "1 \<le> x")
  case True
  define n where "n = \<lfloor>x\<rfloor>"
  define b where "b = bitlen n"
  from True have n1: "1 \<le> n" by (simp add: n_def le_floor_iff)
  then have bb: "2 ^ nat (b - 1) \<le> n \<and> n < 2 ^ nat b"
    unfolding b_def by (intro bitlen_bounds) simp
  from n1 have b1: "1 \<le> b"
    using bitlen_eq_zero_iff[of n] bitlen_nonneg[of n] unfolding b_def by linarith
  have e: "ilog2 x = b - 1" using True by (simp add: ilog2_def n_def b_def)
  have "(2::rat) powi (b - 1) = of_int (2 ^ nat (b - 1))"
    using b1 by (simp add: powi_nat)
  also have "\<dots> \<le> of_int n" using bb by (simp only: of_int_le_iff)
  also have "\<dots> \<le> x" by (simp add: n_def)
  finally have lo: "2 powi (b - 1) \<le> x" .
  have "x < of_int (n + 1)" using floor_correct[of x] unfolding n_def by simp
  also have "\<dots> \<le> of_int (2 ^ nat b)"
    using bb by (simp only: of_int_le_iff) simp
  also have "\<dots> = (2::rat) powi b" using b1 by (simp add: powi_nat)
  finally have "x < 2 powi b" .
  with lo e show ?thesis by simp
next
  case False
  define y where "y = 1 / x"
  define n where "n = \<lceil>y\<rceil>"
  define c where "c = bitlen (n - 1)"
  from False assms have y1: "1 < y" by (simp add: y_def)
  then have n2: "2 \<le> n" by (simp add: n_def)
  then have bb: "2 ^ nat (c - 1) \<le> n - 1 \<and> n - 1 < 2 ^ nat c"
    unfolding c_def by (intro bitlen_bounds) simp
  from n2 have c1: "1 \<le> c"
    using bitlen_eq_zero_iff[of "n - 1"] bitlen_nonneg[of "n - 1"] unfolding c_def by linarith
  have e: "ilog2 x = - c" using False by (simp add: ilog2_def n_def c_def y_def)
  have "y \<le> of_int n" by (simp add: n_def)
  also have "\<dots> \<le> of_int (2 ^ nat c)" using bb by (simp only: of_int_le_iff) simp
  finally have "y \<le> 2 ^ nat c" by simp
  then have "inverse (2 ^ nat c) \<le> inverse y"
    using y1 by (intro le_imp_inverse_le) simp_all
  then have lo: "2 powi (- c) \<le> x"
    using c1 assms by (simp add: powi_neg y_def)
  have "of_int (2 ^ nat (c - 1)) \<le> (of_int (n - 1) :: rat)"
    using bb by (simp only: of_int_le_iff)
  also have "\<dots> < y" by (simp add: n_def) linarith
  finally have "2 ^ nat (c - 1) < y" by simp
  then have "inverse y < inverse (2 ^ nat (c - 1))"
    by (intro less_imp_inverse_less) simp_all
  moreover have "(2::rat) powi (- c + 1) = inverse (2 ^ nat (c - 1))"
    using c1 powi_neg[of "c - 1"] by simp
  ultimately have "x < 2 powi (- c + 1)"
    using assms by (simp add: y_def)
  with lo e show ?thesis by simp
qed

lemma ilog2_mono:
  assumes "0 < x" and "x \<le> y"
  shows "ilog2 x \<le> ilog2 y"
proof (rule ccontr)
  assume "\<not> ilog2 x \<le> ilog2 y"
  then have "ilog2 y + 1 \<le> ilog2 x" by simp
  then have "2 powi (ilog2 y + 1) \<le> (2::rat) powi (ilog2 x)" by (rule powi_le)
  with ilog2_bounds[OF assms(1)] ilog2_bounds[of y] assms show False by linarith
qed

lemma exponent_ge: "- 1022 \<le> exponent x"
  by (simp add: exponent_def)

lemma exponent_mono: "0 < x \<Longrightarrow> x \<le> y \<Longrightarrow> exponent x \<le> exponent y"
  using ilog2_mono[of x y] by (simp add: exponent_def)

subsection \<open>Rounding to a whole number, ties to even\<close>

lemma rhe_cases: "round_half_even x = \<lfloor>x\<rfloor> \<or> round_half_even x = \<lfloor>x\<rfloor> + 1"
  by (simp add: round_half_even_def Let_def)

lemma rhe_of_int [simp]: "round_half_even (of_int n) = n"
  by (simp add: round_half_even_def)

lemma rhe_mono:
  assumes "x \<le> y"
  shows "round_half_even x \<le> round_half_even y"
proof (cases "\<lfloor>x\<rfloor> = \<lfloor>y\<rfloor>")
  case True
  with assms have "x - of_int \<lfloor>x\<rfloor> \<le> y - of_int \<lfloor>y\<rfloor>" by simp
  with True show ?thesis
    by (auto simp: round_half_even_def Let_def)
next
  case False
  with assms have "\<lfloor>x\<rfloor> < \<lfloor>y\<rfloor>" using floor_mono[OF assms] by linarith
  with rhe_cases[of x] rhe_cases[of y] show ?thesis by linarith
qed

lemma rhe_ge: "of_int n \<le> x \<Longrightarrow> n \<le> round_half_even x"
  using rhe_mono[of "of_int n" x] by simp

lemma rhe_le: "x \<le> of_int n \<Longrightarrow> round_half_even x \<le> n"
  using rhe_mono[of x "of_int n"] by simp

subsection \<open>The rounded magnitude\<close>

lemma scaled_less:
  assumes "0 < x"
  shows "x / 2 powi (exponent x - 52) < 2 ^ 53"
proof -
  have "x < 2 powi (ilog2 x + 1)" using ilog2_bounds[OF assms] by simp
  also have "\<dots> \<le> 2 powi (exponent x + 1)" by (intro powi_le) (simp add: exponent_def)
  also have "\<dots> = 2 ^ 53 * 2 powi (exponent x - 52)" by (rule powi_split)
  finally show ?thesis by (simp add: pos_divide_less_eq)
qed

lemma scaled_ge:
  assumes "0 < x" and "- 1022 \<le> ilog2 x"
  shows "2 ^ 52 \<le> x / 2 powi (exponent x - 52)"
proof -
  from assms(2) have e: "exponent x = ilog2 x" by (simp add: exponent_def)
  have "2 ^ 52 * 2 powi (exponent x - 52) = (2::rat) powi (exponent x)"
    by (rule powi_split'[symmetric])
  also have "\<dots> \<le> x" using ilog2_bounds[OF assms(1)] e by simp
  finally show ?thesis by (simp add: pos_le_divide_eq)
qed

lemma mantissa_le: "0 < x \<Longrightarrow> mantissa x \<le> 2 ^ 53"
  unfolding mantissa_def using scaled_less[of x] by (intro rhe_le) simp

lemma mantissa_nonneg: "0 < x \<Longrightarrow> 0 \<le> mantissa x"
  unfolding mantissa_def by (intro rhe_ge) simp

lemma mantissa_ge: "0 < x \<Longrightarrow> - 1022 \<le> ilog2 x \<Longrightarrow> 2 ^ 52 \<le> mantissa x"
  unfolding mantissa_def using scaled_ge[of x] by (intro rhe_ge) simp

lemma rounded_nonneg: "0 < x \<Longrightarrow> 0 \<le> rounded x"
  by (simp add: rounded_def mantissa_nonneg)

lemma rounded_le: "0 < x \<Longrightarrow> rounded x \<le> 2 powi (exponent x + 1)"
proof -
  assume "0 < x"
  then have "(of_int (mantissa x) :: rat) \<le> of_int (2 ^ 53)"
    by (simp only: of_int_le_iff mantissa_le)
  then have "rounded x \<le> 2 ^ 53 * 2 powi (exponent x - 52)"
    unfolding rounded_def by (intro mult_right_mono) simp_all
  then show ?thesis by (simp only: powi_split)
qed

lemma rounded_ge: "0 < x \<Longrightarrow> - 1022 \<le> ilog2 x \<Longrightarrow> 2 powi (exponent x) \<le> rounded x"
proof -
  assume "0 < x" "- 1022 \<le> ilog2 x"
  then have "(of_int (2 ^ 52) :: rat) \<le> of_int (mantissa x)"
    by (simp only: of_int_le_iff mantissa_ge)
  then have "2 ^ 52 * 2 powi (exponent x - 52) \<le> rounded x"
    unfolding rounded_def by (intro mult_right_mono) simp_all
  then show ?thesis by (simp only: powi_split'[symmetric])
qed

lemma rounded_mono:
  assumes "0 < x" and "x \<le> y"
  shows "rounded x \<le> rounded y"
proof (cases "exponent x = exponent y")
  case True
  have "x / 2 powi (exponent y - 52) \<le> y / 2 powi (exponent y - 52)"
    using assms(2) by (simp add: divide_right_mono)
  then have "mantissa x \<le> mantissa y"
    unfolding mantissa_def True by (rule rhe_mono)
  then have "(of_int (mantissa x) :: rat) \<le> of_int (mantissa y)" by simp
  then show ?thesis
    unfolding rounded_def True by (intro mult_right_mono) simp_all
next
  case False
  with exponent_mono[OF assms] have lt: "exponent x + 1 \<le> exponent y" by simp
  from assms have y: "0 < y" by simp
  from lt exponent_ge[of x] have "- 1022 < exponent y" by simp
  then have n: "- 1022 \<le> ilog2 y" by (simp add: exponent_def)
  have "rounded x \<le> 2 powi (exponent x + 1)" by (rule rounded_le[OF assms(1)])
  also have "\<dots> \<le> 2 powi (exponent y)" using lt by (rule powi_le)
  also have "\<dots> \<le> rounded y" by (rule rounded_ge[OF y n])
  finally show ?thesis .
qed

lemma overflow_iff:
  assumes "0 < x"
  shows "(1023 < exponent x \<or> (exponent x = 1023 \<and> 2 ^ 53 \<le> mantissa x))
           \<longleftrightarrow> 2 powi 1024 \<le> rounded x"
proof
  assume "1023 < exponent x \<or> (exponent x = 1023 \<and> 2 ^ 53 \<le> mantissa x)"
  then show "2 powi 1024 \<le> rounded x"
  proof
    assume e: "1023 < exponent x"
    then have "- 1022 \<le> ilog2 x" by (simp add: exponent_def)
    from rounded_ge[OF assms this] powi_le[of 1024 "exponent x"] e show ?thesis by simp
  next
    assume a: "exponent x = 1023 \<and> 2 ^ 53 \<le> mantissa x"
    then have "(of_int (2 ^ 53) :: rat) \<le> of_int (mantissa x)" by (simp only: of_int_le_iff)
    then have "2 ^ 53 * 2 powi (exponent x - 52) \<le> rounded x"
      unfolding rounded_def by (intro mult_right_mono) simp_all
    then have "2 powi (exponent x + 1) \<le> rounded x" by (simp only: powi_split)
    with a show ?thesis by simp
  qed
next
  assume big: "2 powi 1024 \<le> rounded x"
  with rounded_le[OF assms] have "(2::rat) powi 1024 \<le> 2 powi (exponent x + 1)" by simp
  then have "\<not> exponent x + 1 < 1024" using powi_less[of "exponent x + 1" 1024] by auto
  then have e: "1023 \<le> exponent x" by simp
  show "1023 < exponent x \<or> (exponent x = 1023 \<and> 2 ^ 53 \<le> mantissa x)"
  proof (cases "exponent x = 1023")
    case True
    with big have "2 ^ 53 * (2::rat) powi 971 \<le> of_int (mantissa x) * 2 powi 971"
      using powi_split[of 1023] by (simp add: rounded_def)
    then have "(2 ^ 53 :: rat) \<le> of_int (mantissa x)" by simp
    then have "(of_int (2 ^ 53) :: rat) \<le> of_int (mantissa x)" by simp
    then have "2 ^ 53 \<le> mantissa x" by (simp only: of_int_le_iff)
    with True show ?thesis by simp
  next
    case False
    with e show ?thesis by simp
  qed
qed

subsection \<open>Rounding to binary64\<close>

lemma round64_pos:
  "0 < x \<Longrightarrow> round64 x = (if 2 powi 1024 \<le> rounded x then PosInfinity else Finite (rounded x))"
  using overflow_iff[of x] by (simp add: round64_def Let_def rounded_def)

lemma round64_neg:
  "x < 0 \<Longrightarrow>
     round64 x = (if 2 powi 1024 \<le> rounded (- x) then NegInfinity else Finite (- rounded (- x)))"
  using overflow_iff[of "- x"] by (simp add: round64_def Let_def rounded_def)

lemma round64_zero [simp]: "round64 0 = Finite 0"
  by (simp add: round64_def)

lemma round64_not_NaN [simp]: "round64 x \<noteq> NaN"
  by (simp add: round64_def Let_def)

text \<open>Rounding is monotone.\<close>

lemma round64_mono:
  assumes "x \<le> y"
  shows "num_le (round64 x) (round64 y)"
proof -
  consider "0 < x" | "x = 0" | "x < 0" by linarith
  then show ?thesis
  proof cases
    case 1
    with assms have y: "0 < y" by simp
    from rounded_mono[OF 1 assms] show ?thesis
      by (simp add: round64_pos 1 y)
  next
    case 2
    show ?thesis
    proof (cases "y = 0")
      case True
      with 2 show ?thesis by simp
    next
      case False
      with 2 assms have y: "0 < y" by simp
      with 2 rounded_nonneg[OF y] show ?thesis by (simp add: round64_pos)
    qed
  next
    case 3
    consider "0 < y" | "y = 0" | "y < 0" by linarith
    then show ?thesis
    proof cases
      case 1
      with 3 rounded_nonneg[of y] rounded_nonneg[of "- x"] show ?thesis
        by (simp add: round64_pos round64_neg)
    next
      case 2
      with 3 rounded_nonneg[of "- x"] show ?thesis
        by (simp add: round64_neg)
    next
      case y: 3
      from assms y have "rounded (- y) \<le> rounded (- x)"
        by (intro rounded_mono) simp_all
      with 3 y show ?thesis
        by (simp add: round64_neg)
    qed
  qed
qed

text \<open>A whole multiple of a power of two with at most 53 bits is not changed.\<close>

lemma rounded_eq:
  assumes "x / 2 powi (exponent x - 52) = of_int j"
  shows "rounded x = x"
proof -
  from assms have "mantissa x = j" by (simp add: mantissa_def)
  then have "rounded x = of_int j * 2 powi (exponent x - 52)" by (simp add: rounded_def)
  also have "\<dots> = x" using assms[symmetric] by simp
  finally show ?thesis .
qed

lemma rounded_exact:
  assumes m: "0 < m" "m \<le> 2 ^ 53" and k: "- 1074 \<le> k" and x: "x = of_int m * 2 powi k"
  shows "rounded x = x"
proof -
  define e where "e = exponent x"
  define d where "d = k - e + 52"
  from m x have pos: "0 < x" by simp
  have sc: "x / 2 powi (e - 52) = of_int m * 2 powi d"
  proof -
    have "(2::rat) powi d = 2 powi (k - (e - 52))" by (simp add: d_def algebra_simps)
    also have "\<dots> = 2 powi k / 2 powi (e - 52)" by (rule power_int_diff) simp
    finally show ?thesis by (simp add: x)
  qed
  show ?thesis
  proof (cases "0 \<le> d")
    case True
    then have "(2::rat) powi d = of_int (2 ^ nat d)" by (simp add: powi_nat)
    with sc have "x / 2 powi (exponent x - 52) = of_int (m * 2 ^ nat d)"
      by (simp add: e_def)
    then show ?thesis by (rule rounded_eq)
  next
    case False
    then have "k + 52 < e" by (simp add: d_def)
    with k have n: "- 1022 < e" by simp
    then have il: "e = ilog2 x" by (simp add: e_def exponent_def)
    have "(of_int m :: rat) \<le> of_int (2 ^ 53)" using m by (simp only: of_int_le_iff)
    then have "x \<le> 2 ^ 53 * 2 powi k" unfolding x by (intro mult_right_mono) simp_all
    also have "\<dots> = 2 powi (k + 53)" using powi_split[of "k + 52"] by (simp add: add.commute)
    finally have up: "x \<le> 2 powi (k + 53)" .
    have lo: "2 powi e \<le> x" using ilog2_bounds[OF pos] il by simp
    have "\<not> k + 53 < e" using powi_less[of "k + 53" e] lo up by auto
    with \<open>k + 52 < e\<close> have e: "e = k + 53" by simp
    with lo have "2 ^ 53 * 2 powi k \<le> of_int m * (2::rat) powi k"
      using powi_split[of "k + 52"] by (simp add: x add.commute)
    then have "(2 ^ 53 :: rat) \<le> of_int m" by simp
    then have "(of_int (2 ^ 53) :: rat) \<le> of_int m" by simp
    then have "2 ^ 53 \<le> m" by (simp only: of_int_le_iff)
    with m have m53: "m = 2 ^ 53" by simp
    from e have "d = - 1" by (simp add: d_def)
    with sc m53 have "x / 2 powi (exponent x - 52) = of_int (2 ^ 52)"
      by (simp add: e_def)
    then show ?thesis by (rule rounded_eq)
  qed
qed

lemma rounded_rounded:
  assumes "0 < x"
  shows "rounded (rounded x) = rounded x"
proof (cases "mantissa x = 0")
  case True
  then have z: "rounded x = 0" by (simp add: rounded_def)
  have "mantissa 0 = 0" using rhe_of_int[of 0] by (simp add: mantissa_def)
  then have "rounded 0 = 0" by (simp add: rounded_def)
  with z show ?thesis by simp
next
  case False
  with mantissa_nonneg[OF assms] have "0 < mantissa x" by simp
  moreover have "mantissa x \<le> 2 ^ 53" by (rule mantissa_le[OF assms])
  moreover have "- 1074 \<le> exponent x - 52" using exponent_ge[of x] by simp
  moreover have "rounded x = of_int (mantissa x) * 2 powi (exponent x - 52)"
    by (simp add: rounded_def)
  ultimately show ?thesis by (rule rounded_exact)
qed

text \<open>The result of a rounding is a binary64 value.\<close>

lemma round64_idem:
  assumes "round64 x = Finite y"
  shows "is_double y"
  unfolding is_double_def
proof -
  consider "0 < x" | "x = 0" | "x < 0" by linarith
  then show "round64 y = Finite y"
  proof cases
    case 1
    with assms have y: "y = rounded x" and small: "\<not> 2 powi 1024 \<le> rounded x"
      by (auto simp: round64_pos split: if_splits)
    show ?thesis
    proof (cases "y = 0")
      case True
      then show ?thesis by simp
    next
      case False
      with y rounded_nonneg[OF 1] have "0 < y" by simp
      with y small rounded_rounded[OF 1] show ?thesis by (simp add: round64_pos)
    qed
  next
    case 2
    with assms show ?thesis by auto
  next
    case 3
    then have nx: "0 < - x" by simp
    from 3 assms have y: "y = - rounded (- x)" and small: "\<not> 2 powi 1024 \<le> rounded (- x)"
      by (auto simp: round64_neg split: if_splits)
    show ?thesis
    proof (cases "y = 0")
      case True
      then show ?thesis by simp
    next
      case False
      with y rounded_nonneg[OF nx] have "y < 0" by simp
      with y small rounded_rounded[OF nx] show ?thesis by (simp add: round64_neg)
    qed
  qed
qed

text \<open>A whole number is rounded to a whole number, and kept when its magnitude is at
  most \<open>2 ^ 53\<close>.\<close>

lemma rounded_int:
  assumes "0 < x" and "x = of_int i"
  shows "\<exists>j. rounded x = of_int j"
proof (cases "52 \<le> exponent x")
  case True
  then have "(2::rat) powi (exponent x - 52) = of_int (2 ^ nat (exponent x - 52))"
    by (simp add: powi_nat)
  then have "rounded x = of_int (mantissa x * 2 ^ nat (exponent x - 52))"
    by (simp add: rounded_def)
  then show ?thesis by blast
next
  case False
  then have d: "0 \<le> 52 - exponent x" by simp
  have "(2::rat) powi (52 - exponent x) = 2 powi (- (exponent x - 52))"
    by simp
  also have "\<dots> = 1 / 2 powi (exponent x - 52)"
    by (simp only: power_int_minus divide_inverse mult_1)
  finally have "(1::rat) / 2 powi (exponent x - 52) = 2 powi (52 - exponent x)"
    by simp
  also have "\<dots> = of_int (2 ^ nat (52 - exponent x))" using d by (simp add: powi_nat)
  finally have "x / 2 powi (exponent x - 52) = of_int (i * 2 ^ nat (52 - exponent x))"
    using assms(2) by (simp add: divide_inverse)
  then have "rounded x = x" by (rule rounded_eq)
  with assms(2) show ?thesis by blast
qed

lemma round64_int:
  assumes "\<bar>i\<bar> \<le> 2 ^ 53"
  shows "round64 (of_int i) = Finite (of_int i)"
proof -
  have small: "\<not> (2::rat) powi 1024 \<le> of_int j" if "0 < j" "j \<le> 2 ^ 53" for j :: int
  proof -
    from that have "(of_int j :: rat) \<le> of_int (2 ^ 53)" by (simp only: of_int_le_iff)
    also have "\<dots> = 2 powi 53" by simp
    also have "\<dots> < 2 powi 1024" by (rule powi_less) simp
    finally show ?thesis by simp
  qed
  have ex: "rounded (of_int j) = of_int j" if "0 < j" "j \<le> 2 ^ 53" for j :: int
    using that by (intro rounded_exact[of j 0]) simp_all
  consider "0 < i" | "i = 0" | "i < 0" by linarith
  then show ?thesis
  proof cases
    case 1
    with assms ex[of i] small[of i] show ?thesis by (simp add: round64_pos)
  next
    case 2
    then show ?thesis by simp
  next
    case 3
    with assms ex[of "- i"] small[of "- i"] show ?thesis by (simp add: round64_neg)
  qed
qed

lemma round64_numeral [simp]:
  "(numeral w :: int) \<le> 2 ^ 53 \<Longrightarrow> round64 (numeral w) = Finite (numeral w)"
  using round64_int[of "numeral w"] by simp

lemma round64_neg_numeral [simp]:
  "(numeral w :: int) \<le> 2 ^ 53 \<Longrightarrow> round64 (- numeral w) = Finite (- numeral w)"
  using round64_int[of "- numeral w"] by simp

lemma round64_one [simp]: "round64 1 = Finite 1"
  using round64_int[of 1] by simp

text \<open>A rounding is not below a binary64 value that the exact value is not below.\<close>

lemma round64_lower:
  assumes "is_double c" and "c \<le> x"
  shows "round64 x = PosInfinity \<or> (\<exists>r. round64 x = Finite r \<and> c \<le> r \<and> is_double r)"
proof -
  from round64_mono[OF assms(2)] assms(1) have le: "num_le (Finite c) (round64 x)"
    by (simp add: is_double_def)
  show ?thesis
  proof (cases "round64 x")
    case (Finite r)
    with le round64_idem[OF Finite] show ?thesis by simp
  qed (use le in auto)
qed

lemma round64_minus_one [simp]: "round64 (- 1) = Finite (- 1)"
  using round64_int[of "- 1"] by simp

text \<open>At or above \<open>2 ^ 1024\<close> the rounding is Infinity.\<close>

lemma round64_overflow:
  assumes "2 powi 1024 \<le> x"
  shows "round64 x = PosInfinity"
proof -
  have one: "rounded (2 powi 1024) = 2 powi 1024"
    by (rule rounded_exact[of 1 1024]) simp_all
  have pos: "0 < x" using assms zero_less_power_int[of "2::rat" 1024] by linarith
  have "rounded (2 powi 1024) \<le> rounded x"
    using assms by (intro rounded_mono) simp_all
  with one pos show ?thesis by (simp add: round64_pos)
qed

section \<open>Facts about the points\<close>

lemma whole_round:
  assumes "0 \<le> i"
  shows "whole_score (round64 (of_int i))"
proof (cases "i = 0")
  case True
  then show ?thesis by (simp add: is_double_def)
next
  case False
  with assms have pos: "0 < (of_int i :: rat)" by simp
  show ?thesis
  proof (cases "round64 (of_int i)")
    case (Finite y)
    with pos have y: "y = rounded (of_int i)"
      by (auto simp: round64_pos split: if_splits)
    from rounded_int[OF pos refl] obtain j where "rounded (rat_of_int i) = of_int j" by blast
    with y rounded_nonneg[OF pos] round64_idem[OF Finite] Finite show ?thesis by simp
  next
    case NegInfinity
    with pos show ?thesis by (simp add: round64_pos split: if_splits)
  qed simp_all
qed

text \<open>With a \<^verbatim>\<open>timeLeft\<close> of at least -20 the points are a non-negative whole number
  or Infinity.\<close>

lemma points_whole:
  assumes "- 20 \<le> t"
  shows "whole_score (points (round64 t))"
proof -
  have d20: "is_double (- 20)" and d1: "is_double (- 1)" and d500: "is_double (- 500)"
    by (simp_all add: is_double_def)
  from round64_lower[OF d20 assms] show ?thesis
  proof (elim disjE exE conjE)
    assume "round64 t = PosInfinity"
    then show ?thesis by (simp add: points_def)
  next
    fix r
    assume r: "round64 t = Finite r" "- 20 \<le> r"
    then have "- 1 \<le> r / 20" by simp
    from round64_lower[OF d1 this] show ?thesis
    proof (elim disjE exE conjE)
      assume "round64 (r / 20) = PosInfinity"
      with r show ?thesis by (simp add: points_def)
    next
      fix q
      assume q: "round64 (r / 20) = Finite q" "- 1 \<le> q"
      then have "- 500 \<le> 500 * q" by simp
      from round64_lower[OF d500 this] show ?thesis
      proof (elim disjE exE conjE)
        assume "round64 (500 * q) = PosInfinity"
        with r q show ?thesis by (simp add: points_def)
      next
        fix w
        assume w: "round64 (500 * q) = Finite w" "- 500 \<le> w"
        then have "of_int (- 500) \<le> w" by simp
        then have "- 500 \<le> \<lfloor>w\<rfloor>" by (simp only: le_floor_iff)
        then have "0 \<le> 500 + \<lfloor>w\<rfloor>" by linarith
        from whole_round[OF this] r q w show ?thesis
          by (simp add: points_def)
      qed
    qed
  qed
qed

text \<open>Adding such points to such a score gives such a score, and one that is not
  lower.\<close>

lemma add_whole:
  assumes "whole_score a" and "whole_score b"
  shows "whole_score (num_add a b) \<and> num_le a (num_add a b)"
proof (cases a)
  case a: (Finite x)
  show ?thesis
  proof (cases b)
    case b: (Finite y)
    from assms a b obtain i j where ij: "x = of_int i" "0 \<le> i" "y = of_int j" "0 \<le> j"
      by (metis whole_score.simps(1) of_int_0_le_iff)
    then have "0 \<le> i + j" by simp
    from whole_round[OF this] ij a b have w: "whole_score (num_add a b)" by simp
    from assms a have "round64 x = Finite x" by (simp add: is_double_def)
    moreover from ij have "x \<le> x + y" by simp
    then have "num_le (round64 x) (round64 (x + y))" by (rule round64_mono)
    ultimately show ?thesis using w a b by simp
  next
    case PosInfinity
    with a show ?thesis by simp
  qed (use assms in simp_all)
next
  case PosInfinity
  with assms show ?thesis by (cases b) simp_all
qed (use assms in simp_all)

text \<open>For a whole number of seconds from 0 to 20 no rounding changes a value: the points
  are those of the exact formula.\<close>

lemma points_table_low:
  "list_all (\<lambda>t. points (round64 (of_int t))
                  = Finite (of_int (500 + \<lfloor>500 * rat_of_int t / 20\<rfloor>))) [0..6]"
  by code_simp

lemma points_table_mid:
  "list_all (\<lambda>t. points (round64 (of_int t))
                  = Finite (of_int (500 + \<lfloor>500 * rat_of_int t / 20\<rfloor>))) [7..13]"
  by code_simp

lemma points_table_high:
  "list_all (\<lambda>t. points (round64 (of_int t))
                  = Finite (of_int (500 + \<lfloor>500 * rat_of_int t / 20\<rfloor>))) [14..20]"
  by code_simp

lemma points_whole_seconds:
  assumes "0 \<le> t" and "t \<le> 20"
  shows "points (round64 (of_int t)) = Finite (of_int (500 + \<lfloor>500 * rat_of_int t / 20\<rfloor>))"
proof -
  from assms have "t \<in> set [0..6] \<or> t \<in> set [7..13] \<or> t \<in> set [14..20]"
    by (simp only: set_upto atLeastAtMost_iff) presburger
  with points_table_low points_table_mid points_table_high show ?thesis
    unfolding list_all_iff by blast
qed

lemma points_20 [simp]: "points (Finite 20) = Finite 1000"
  using points_whole_seconds[of 20] by simp

lemma points_15 [simp]: "points (Finite 15) = Finite 875"
  using points_whole_seconds[of 15] by simp

lemma points_10 [simp]: "points (Finite 10) = Finite 750"
  using points_whole_seconds[of 10] by simp

lemma points_0 [simp]: "points (Finite 0) = Finite 500"
  using points_whole_seconds[of 0] by simp

lemma points_minus_20 [simp]: "points (Finite (- 20)) = Finite 0"
  by (simp add: points_def)

lemma points_minus_100 [simp]: "points (Finite (- 100)) = Finite (- 2000)"
  by (simp add: points_def)

text \<open>The payload 1.4 is parsed to the binary64 value just below it; its twentieth
  times 500 is just below 35.\<close>

lemma points_1_4: "points (round64 (7 / 5)) = Finite 534"
  by code_simp

text \<open>From \<open>2 ^ 1023\<close> on, so for 1e308, the product overflows.\<close>

lemma points_overflow:
  assumes "2 powi 1023 \<le> t"
  shows "points (round64 t) = PosInfinity"
proof -
  have d: "is_double (2 powi k)" if "- 1074 \<le> k" "k \<le> 1023" for k
  proof -
    have "rounded (2 powi k) = 2 powi k"
      using that by (intro rounded_exact[of 1 k]) simp_all
    moreover have "\<not> (2::rat) powi 1024 \<le> 2 powi k"
      using powi_less[of k 1024] that by simp
    ultimately show ?thesis by (simp add: is_double_def round64_pos)
  qed
  have d1023: "is_double (2 powi 1023)" and d1018: "is_double (2 powi 1018)"
    by (rule d; simp)+
  from round64_lower[OF d1023 assms] show ?thesis
  proof (elim disjE exE conjE)
    assume "round64 t = PosInfinity"
    then show ?thesis by (simp add: points_def)
  next
    fix r
    assume r: "round64 t = Finite r" "2 powi 1023 \<le> r"
    have "(2::rat) powi 1018 * 20 \<le> 2 powi 1018 * 2 powi 5"
      by (intro mult_left_mono) simp_all
    also have "\<dots> = 2 powi 1023" by (simp flip: power_int_add)
    finally have "2 powi 1018 \<le> r / 20" using r by (simp add: pos_le_divide_eq)
    from round64_lower[OF d1018 this] show ?thesis
    proof (elim disjE exE conjE)
      assume "round64 (r / 20) = PosInfinity"
      with r show ?thesis by (simp add: points_def)
    next
      fix q
      assume q: "round64 (r / 20) = Finite q" "2 powi 1018 \<le> q"
      have "(2::rat) powi 1024 = 2 powi 6 * 2 powi 1018" by (simp flip: power_int_add)
      also have "\<dots> \<le> 500 * 2 powi 1018" by (intro mult_right_mono) simp_all
      also have "\<dots> \<le> 500 * q" using q by simp
      finally have "round64 (500 * q) = PosInfinity" by (rule round64_overflow)
      with r q show ?thesis by (simp add: points_def)
    qed
  qed
qed

lemma points_1e308: "points (round64 (10 ^ 308)) = PosInfinity"
proof -
  have "(2::rat) powi 1023 \<le> 10 ^ 308" by simp
  then show ?thesis by (rule points_overflow)
qed

text \<open>The formula without the parentheses of the source, evaluated from left to right
  in binary64: at 1.4 the product \<^verbatim>\<open>500 * 1.4\<close> rounds to 700 and the result is 535.\<close>

lemma left_to_right_1_4:
  "num_add (Finite 500) (num_floor (num_div (num_mul (Finite 500) (round64 (7 / 5))) (Finite 20)))
     = Finite 535"
  by code_simp

section \<open>Facts about the primitives\<close>

lemma getGame_update:
  "getGame p' (AList.update p g games) = (if p' = p then Some g else getGame p' games)"
  by (simp add: getGame_def update_conv')

lemma getGame_delete:
  "getGame p' (AList.delete p games) = (if p' = p then None else getGame p' games)"
  by (simp add: getGame_def delete_conv')

lemma getGame_in_set: "getGame p games = Some g \<Longrightarrow> (p, g) \<in> set games"
  by (simp add: getGame_def map_of_SomeD)

lemma in_set_update:
  "(k', v') \<in> set (AList.update k v al) \<Longrightarrow> (k', v') \<in> set al \<or> (k' = k \<and> v' = v)"
  by (induction al) (auto split: if_splits)

lemma in_set_delete:
  "(k', v') \<in> set (AList.delete k al) \<Longrightarrow> (k', v') \<in> set al"
  by (induction al) (auto split: if_splits)

lemma fresh_pin_fresh: "fresh_pin draws games = Some d \<Longrightarrow> getGame d games = None"
  by (induction draws) (auto simp: getGame_def split: if_splits)

lemma find_mutate_findIndex:
  "findIndex P xs = Some k \<Longrightarrow> find_mutate P f xs = xs[k := f (xs ! k)]"
  by (induction xs arbitrary: k) (auto split: if_splits)

lemma find_mutate_ids:
  "(\<And>x. id' (f x) = id' x) \<Longrightarrow> map id' (find_mutate P f xs) = map id' xs"
  by (induction xs) auto

lemma in_find_mutate:
  "y \<in> set (find_mutate P f xs) \<Longrightarrow> y \<in> set xs \<or> (\<exists>x \<in> set xs. y = f x)"
  by (induction xs) (auto split: if_splits)

lemma set_splice1: "set (splice1 k xs) \<subseteq> set xs"
  by (auto simp: splice1_def dest: in_set_takeD in_set_dropD)

text \<open>The sort rearranges the players and loses none.\<close>

lemma mset_insert_sorted: "mset (insert_sorted a bs) = add_mset a (mset bs)"
  by (induction bs) auto

lemma mset_js_sort [simp]: "mset (js_sort ps) = mset ps"
  unfolding js_sort_def by (induction ps) (auto simp: mset_insert_sorted)

lemma set_js_sort [simp]: "set (js_sort ps) = set ps"
  using mset_js_sort[of ps] by (rule mset_eq_setD)

lemmas handler_defs =
  create_game_def createGame_def getGame_def start_game_def next_question_def
  show_results_def join_game_def submit_answer_def disconnect_def removePlayer_def
  sendQuestion_def addPlayer_def getLeaderboard_def unchanged_def at_index_def
  truthy_entry_def timeLimit_or_default_def splice1_def Let_def
  js_sort_def stays_before_def compareFn_def

lemmas demo_defs =
  demo_quiz_def ana_def bo_def demo_game_def demo_lobby_def demo_round_def
  demo_scored_def demo_end_def fresh_game_def demo_two_def demo_other_def demo_host_in_def

subsection \<open>Every handler returns\<close>

text \<open>The only loop that can go on is the drawing of pins in \<^verbatim>\<open>createGame\<close>; it ends
  as soon as one of the draws is a pin that is not registered. Every other handler is a
  total function.\<close>

lemma fresh_pin_returns:
  "d \<in> set draws \<Longrightarrow> getGame d games = None \<Longrightarrow> \<exists>p. fresh_pin draws games = Some p"
  by (induction draws) (auto simp: getGame_def)

lemma create_game_returns:
  assumes "d \<in> set draws" and "getGame d games = None"
  shows "\<exists>r. create_game sid draws qs games = Some r \<and> thrown r = None"
proof -
  from fresh_pin_returns[OF assms] obtain p where "fresh_pin draws games = Some p"
    by blast
  then show ?thesis
    by (simp add: create_game_def createGame_def getGame_update)
qed

lemma step_returns:
  "(\<And>sid draws qs. e = CreateGame sid draws qs \<Longrightarrow> \<exists>d \<in> set draws. getGame d games = None)
     \<Longrightarrow> \<exists>r. step games e = Some r"
  by (cases e) (auto dest: create_game_returns)

subsection \<open>The sample game is reachable\<close>

lemma demo_lobby_reachable:
  "run [] [CreateGame ''h'' [''482913''] demo_quiz, JoinGame ''a'' ''482913'' ''Ana'',
           JoinGame ''b'' ''482913'' ''Bo'']
     = Some (demo_lobby, None)"
  by (simp add: handler_defs demo_defs)

lemma demo_round_reachable:
  "run [] [CreateGame ''h'' [''482913''] demo_quiz, JoinGame ''a'' ''482913'' ''Ana'',
           JoinGame ''b'' ''482913'' ''Bo'', StartGame ''h'' ''482913'']
     = Some (demo_round, None)"
  by (simp add: handler_defs demo_defs)

lemma demo_scored_reachable:
  "run demo_round [SubmitAnswer ''b'' ''482913'' 1 15] = Some ([(''482913'', demo_scored)], None)"
  by (simp add: handler_defs demo_defs)

lemma demo_end_reachable:
  "run demo_round [NextQuestion ''h'' ''482913'', NextQuestion ''h'' ''482913'']
     = Some (demo_end, None)"
  by (simp add: handler_defs demo_defs)

lemma demo_host_in_reachable:
  "run [] [CreateGame ''h'' [''482913''] demo_quiz, JoinGame ''h'' ''482913'' ''Hal'']
     = Some (demo_host_in, None)"
  by (simp add: handler_defs demo_defs)

lemma demo_two_reachable:
  "run [] [CreateGame ''h'' [''111111''] demo_quiz, CreateGame ''h'' [''111111'', ''222222''] demo_quiz]
     = Some (demo_two, None)"
  by (simp add: handler_defs demo_defs)

lemma demo_other_reachable:
  "run [] [CreateGame ''k'' [''111111''] demo_quiz, CreateGame ''h'' [''222222''] demo_quiz]
     = Some (demo_other, None)"
  by (simp add: handler_defs demo_defs)

section \<open>Answer intake\<close>

text \<open>A second answer is dropped when the recorded one is a non-zero index: the
  registry stays as it is and nothing is sent.\<close>

lemma submit_answer_repeat_ignored:
  assumes "getGame p games = Some g"
    and "state g = QUESTION"
    and "at_index (questions g) (currentQuestionIndex g) = Some q"
    and "map_of (answers g) (currentQuestionIndex g) = Some given"
    and "map_of given sid = Some a"
    and "a \<noteq> 0"
  shows "submit_answer sid p answerIndex timeLeft games = unchanged games"
proof -
  from assms(1) have "AList.update p g games = games"
    by (simp add: getGame_def update_triv)
  with assms show ?thesis
    by (simp add: submit_answer_def truthy_entry_def unchanged_def)
qed

text \<open>C1. The claim that a second \<^verbatim>\<open>submit_answer\<close> from a connection with a recorded
  answer is always ignored, also when the recorded answer index is 0. Evaluated on the
  sample game with question 0 open (its correct option is 1): Ana first submits option 0,
  which is recorded and leaves her score at 0; her second submission, option 1 with
  \<^verbatim>\<open>timeLeft\<close> 20, replaces the recorded answer and adds 1000 to her score, because the
  guard reads the recorded 0 as no answer.\<close>

theorem second_answer_after_zero_counts:
  "submit_answer ''a'' ''482913'' 0 5 demo_round =
     \<lparr>server = [(''482913'', demo_game\<lparr>answers := [(0, [(''a'', 0)])]\<rparr>)],
      effects = [io_to ''h'' (player_answered ''a'' 1)], thrown = None\<rparr>
   \<and> submit_answer ''a'' ''482913'' 1 20
        [(''482913'', demo_game\<lparr>answers := [(0, [(''a'', 0)])]\<rparr>)] =
     \<lparr>server = [(''482913'', demo_game
          \<lparr>players := [ana\<lparr>score := Finite 1000, streak := 1\<rparr>, bo],
           answers := [(0, [(''a'', 1)])]\<rparr>)],
      effects = [io_to ''h'' (player_answered ''a'' 1)], thrown = None\<rparr>"
  by (simp add: handler_defs demo_defs)

text \<open>C4, as the claim states it: the points of every correct answer are
  \<open>500 + floor (500 * timeLeft / 20)\<close>. At the sample game Ana answers question 0
  correctly with \<^verbatim>\<open>timeLeft\<close> 1.4. The formula gives 535, in exact arithmetic and also
  when it is evaluated from left to right in binary64. The handler adds 534 to her score:
  it computes \<^verbatim>\<open>500 * (timeLeft / 20)\<close>, and \<^verbatim>\<open>1.4 / 20\<close> is rounded to a binary64
  value whose product with 500 is just below 35.\<close>

theorem points_differ_at_1_4:
  "500 + \<lfloor>500 * (7 / 5 :: rat) / 20\<rfloor> = 535
   \<and> num_add (Finite 500)
        (num_floor (num_div (num_mul (Finite 500) (round64 (7 / 5))) (Finite 20))) = Finite 535
   \<and> map_option (map score) (map_option players
        (getGame ''482913'' (server (submit_answer ''a'' ''482913'' 1 (7 / 5) demo_round))))
      = Some [Finite 534, Finite 0]"
proof -
  have "500 + \<lfloor>500 * (7 / 5 :: rat) / 20\<rfloor> = 535"
    by simp
  moreover have "map_option (map score) (map_option players
        (getGame ''482913'' (server (submit_answer ''a'' ''482913'' 1 (7 / 5) demo_round))))
      = Some [Finite 534, Finite 0]"
    by (simp add: handler_defs demo_defs points_1_4)
  ultimately show ?thesis
    using left_to_right_1_4 by blast
qed

text \<open>C4, amended. A correct answer in phase QUESTION from a participant with no
  recorded answer for the current question adds, by an addition of binary64 numbers,
  the binary64 value of \<^verbatim>\<open>500 + Math.floor(500 * (timeLeft / 20))\<close> to the score of that
  participant (the first player with the socket's id) and 1 to the streak. For a
  \<^verbatim>\<open>timeLeft\<close> that is a whole number from 0 to 20 the points are exactly
  \<open>500 + floor (500 * timeLeft / 20)\<close>, and they are added exactly to a score that is a
  whole number of magnitude at most \<open>2 ^ 52\<close>; the points are 1000, 500, 750 and 875 for
  a \<^verbatim>\<open>timeLeft\<close> of 20, 0, 10 and 15.\<close>

theorem submit_answer_correct_points:
  assumes "getGame p games = Some g"
    and "state g = QUESTION"
    and "at_index (questions g) (currentQuestionIndex g) = Some q"
    and "correctIndex q = answerIndex"
    and "case map_of (answers g) (currentQuestionIndex g) of
           None \<Rightarrow> True | Some given \<Rightarrow> map_of given sid = None"
    and "findIndex (\<lambda>pl. id' pl = sid) (players g) = Some k"
  shows "map_option players (getGame p (server (submit_answer sid p answerIndex timeLeft games)))
           = Some ((players g)[k := (players g ! k)
                \<lparr>score := num_add (score (players g ! k)) (points (round64 timeLeft)),
                 streak := streak (players g ! k) + 1\<rparr>])
         \<and> thrown (submit_answer sid p answerIndex timeLeft games) = None
         \<and> (\<forall>t s. 0 \<le> t \<longrightarrow> t \<le> 20 \<longrightarrow> \<bar>s\<bar> \<le> 2 ^ 52 \<longrightarrow>
                points (round64 (of_int t)) = Finite (of_int (500 + \<lfloor>500 * rat_of_int t / 20\<rfloor>))
                \<and> num_add (Finite (of_int s)) (points (round64 (of_int t)))
                    = Finite (of_int (s + (500 + \<lfloor>500 * rat_of_int t / 20\<rfloor>))))
         \<and> points (round64 20) = Finite 1000 \<and> points (round64 0) = Finite 500
         \<and> points (round64 10) = Finite 750 \<and> points (round64 15) = Finite 875"
proof -
  have fm: "find_mutate (\<lambda>pl. id' pl = sid) f (players g) = (players g)[k := f (players g ! k)]"
    for f
    using assms(6) by (rule find_mutate_findIndex)
  have handler:
    "map_option players (getGame p (server (submit_answer sid p answerIndex timeLeft games)))
       = Some ((players g)[k := (players g ! k)
            \<lparr>score := num_add (score (players g ! k)) (points (round64 timeLeft)),
             streak := streak (players g ! k) + 1\<rparr>])
     \<and> thrown (submit_answer sid p answerIndex timeLeft games) = None"
    using assms(1-5)
    by (auto simp: submit_answer_def Let_def truthy_entry_def getGame_update update_conv' fm
          split: option.splits)
  have whole: "points (round64 (of_int t)) = Finite (of_int (500 + \<lfloor>500 * rat_of_int t / 20\<rfloor>))
        \<and> num_add (Finite (of_int s)) (points (round64 (of_int t)))
            = Finite (of_int (s + (500 + \<lfloor>500 * rat_of_int t / 20\<rfloor>)))"
    if "0 \<le> t" "t \<le> 20" "\<bar>s\<bar> \<le> 2 ^ 52" for t s :: int
  proof -
    have "rat_of_int t * 500 / 20 = of_int (25 * t)" by simp
    then have fl: "\<lfloor>500 * rat_of_int t / 20\<rfloor> = 25 * t"
      by (simp only: mult.commute[of 500] floor_of_int)
    from that have "\<bar>s + (500 + 25 * t)\<bar> \<le> 2 ^ 53" by simp
    then have "round64 (of_int (s + (500 + 25 * t))) = Finite (of_int (s + (500 + 25 * t)))"
      by (rule round64_int)
    with points_whole_seconds[OF that(1,2)] fl show ?thesis by simp
  qed
  have "points (round64 20) = Finite 1000 \<and> points (round64 0) = Finite 500
         \<and> points (round64 10) = Finite 750 \<and> points (round64 15) = Finite 875"
    by simp
  with handler whole show ?thesis by blast
qed

text \<open>C4, at the sample game: Ana answers question 0 with the correct option 1 and
  \<^verbatim>\<open>timeLeft\<close> 15; her score becomes 875 and her streak 1.\<close>

theorem submit_answer_correct_points_witness:
  "getGame ''482913'' demo_round = Some demo_game
   \<and> state demo_game = QUESTION
   \<and> at_index (questions demo_game) (currentQuestionIndex demo_game) = Some (demo_quiz ! 0)
   \<and> correctIndex (demo_quiz ! 0) = 1
   \<and> map_of (answers demo_game) (currentQuestionIndex demo_game) = None
   \<and> findIndex (\<lambda>pl. id' pl = ''a'') (players demo_game) = Some 0
   \<and> map_option players (getGame ''482913'' (server (submit_answer ''a'' ''482913'' 1 15 demo_round)))
       = Some [ana\<lparr>score := Finite 875, streak := 1\<rparr>, bo]
   \<and> thrown (submit_answer ''a'' ''482913'' 1 15 demo_round) = None"
proof -
  have h1: "getGame ''482913'' demo_round = Some demo_game"
    by (simp add: getGame_def demo_round_def)
  have h2: "state demo_game = QUESTION"
    by (simp add: demo_game_def)
  have h3: "at_index (questions demo_game) (currentQuestionIndex demo_game) = Some (demo_quiz ! 0)"
    by (simp add: at_index_def demo_game_def demo_quiz_def)
  have h4: "correctIndex (demo_quiz ! 0) = 1"
    by (simp add: demo_quiz_def)
  have h5: "case map_of (answers demo_game) (currentQuestionIndex demo_game) of
              None \<Rightarrow> True | Some given \<Rightarrow> map_of given ''a'' = None"
    by (simp add: demo_game_def)
  have h6: "findIndex (\<lambda>pl. id' pl = ''a'') (players demo_game) = Some 0"
    by (simp add: demo_game_def ana_def)
  have pl: "players demo_game = [ana, bo]"
    by (simp add: demo_game_def)
  have "map_of (answers demo_game) (currentQuestionIndex demo_game) = None"
    by (simp add: demo_game_def)
  with h1 h2 h3 h4 h6 submit_answer_correct_points [OF h1 h2 h3 h4 h5 h6, of 15]
  show ?thesis
    by (simp add: pl ana_def)
qed

section \<open>Revealing results and the leaderboard\<close>

text \<open>With the current index inside the question list, \<^verbatim>\<open>show_results\<close> from the host
  sets the state to RESULT, keeps the index and broadcasts the correct option of the
  current question with the leaderboard.\<close>

lemma show_results_in_range:
  assumes "getGame p games = Some g"
    and "hostId g = sid"
    and "at_index (questions g) (currentQuestionIndex g) = Some q"
  shows "show_results sid p games =
           \<lparr>server = AList.update p (snd (getLeaderboard (g\<lparr>state := RESULT\<rparr>))) games,
            effects = [io_to p (question_results (correctIndex q)
                         (fst (getLeaderboard (g\<lparr>state := RESULT\<rparr>))))],
            thrown = None\<rparr>
         \<and> currentQuestionIndex (snd (getLeaderboard (g\<lparr>state := RESULT\<rparr>)))
             = currentQuestionIndex g
         \<and> state (snd (getLeaderboard (g\<lparr>state := RESULT\<rparr>))) = RESULT"
  using assms
  by (simp add: show_results_def getLeaderboard_def Let_def split: prod.splits)

text \<open>C2. The claim that \<^verbatim>\<open>show_results\<close> from the host succeeds in every phase.
  Evaluated on the sample game in the lobby (index -1) and after its last question (state
  END, index 2): the handler sets the state to RESULT and then throws a TypeError on
  \<^verbatim>\<open>game.questions[game.currentQuestionIndex].correctIndex\<close>; nothing is broadcast.\<close>

theorem show_results_outside_questions_throws:
  "show_results ''h'' ''482913'' demo_lobby =
     \<lparr>server = [(''482913'', demo_game\<lparr>currentQuestionIndex := - 1, state := RESULT\<rparr>)],
      effects = [], thrown = Some TypeError\<rparr>
   \<and> show_results ''h'' ''482913'' demo_end =
     \<lparr>server = [(''482913'', demo_game\<lparr>currentQuestionIndex := 2, state := RESULT,
                                         answers := [(1, [])]\<rparr>)],
      effects = [], thrown = Some TypeError\<rparr>"
  by (simp add: handler_defs demo_defs)

text \<open>C3. The claim that \<^verbatim>\<open>getLeaderboard\<close> leaves the session unchanged. Evaluated on
  the sample game after Bo, who joined second, has scored 875: the call returns Bo before
  Ana and leaves the game's own player list in that order, no longer the order of
  joining; so does the registry after a \<^verbatim>\<open>show_results\<close>.\<close>

theorem getLeaderboard_reorders_players:
  "players demo_scored = [ana, bo\<lparr>score := Finite 875, streak := 1\<rparr>]
   \<and> getLeaderboard demo_scored =
       ([bo\<lparr>score := Finite 875, streak := 1\<rparr>, ana],
        demo_scored\<lparr>players := [bo\<lparr>score := Finite 875, streak := 1\<rparr>, ana]\<rparr>)
   \<and> players (snd (getLeaderboard demo_scored)) \<noteq> players demo_scored
   \<and> server (show_results ''h'' ''482913'' [(''482913'', demo_scored)]) =
       [(''482913'', demo_scored\<lparr>players := [bo\<lparr>score := Finite 875, streak := 1\<rparr>, ana],
                                 state := RESULT\<rparr>)]"
  by (simp add: handler_defs demo_defs)

section \<open>Starting a game without questions\<close>

text \<open>C10. For a game with an empty question list, \<^verbatim>\<open>start_game\<close> from the host sets
  the state to QUESTION and the index to 0, broadcasts \<^verbatim>\<open>game_started\<close>, and
  \<^verbatim>\<open>sendQuestion\<close> reads question 0 out of bounds: the host is sent \<^verbatim>\<open>undefined\<close> and
  the access to its \<^verbatim>\<open>text\<close> throws a TypeError. The branch is not guarded.\<close>

theorem start_game_no_questions:
  assumes "getGame p games = Some g"
    and "hostId g = sid"
    and "questions g = []"
  shows "start_game sid p games =
           \<lparr>server = AList.update p (g\<lparr>state := QUESTION, currentQuestionIndex := 0\<rparr>) games,
            effects = [io_to p game_started, io_to sid (new_question_host None)],
            thrown = Some TypeError\<rparr>"
  using assms
  by (simp add: start_game_def sendQuestion_def getGame_update at_index_def)

text \<open>C10, from the empty registry: socket \<open>h\<close> creates a game with no questions and
  starts it.\<close>

theorem start_game_no_questions_witness:
  "run [] [CreateGame ''h'' [''482913''] []] =
     Some ([(''482913'', (fresh_game ''482913'' ''h'')\<lparr>questions := []\<rparr>)], None)
   \<and> getGame ''482913'' [(''482913'', (fresh_game ''482913'' ''h'')\<lparr>questions := []\<rparr>)]
       = Some ((fresh_game ''482913'' ''h'')\<lparr>questions := []\<rparr>)
   \<and> hostId ((fresh_game ''482913'' ''h'')\<lparr>questions := []\<rparr>) = ''h''
   \<and> questions ((fresh_game ''482913'' ''h'')\<lparr>questions := []\<rparr>) = []
   \<and> start_game ''h'' ''482913'' [(''482913'', (fresh_game ''482913'' ''h'')\<lparr>questions := []\<rparr>)] =
       \<lparr>server = [(''482913'', (fresh_game ''482913'' ''h'')
                     \<lparr>questions := [], currentQuestionIndex := 0, state := QUESTION\<rparr>)],
        effects = [io_to ''482913'' game_started, io_to ''h'' (new_question_host None)],
        thrown = Some TypeError\<rparr>"
proof -
  let ?g = "(fresh_game ''482913'' ''h'')\<lparr>questions := []\<rparr>"
  have h1: "getGame ''482913'' [(''482913'', ?g)] = Some ?g"
    by (simp add: getGame_def)
  have h2: "hostId ?g = ''h''"
    by (simp add: fresh_game_def)
  have h3: "questions ?g = []"
    by simp
  have r: "run [] [CreateGame ''h'' [''482913''] []] = Some ([(''482913'', ?g)], None)"
    by (simp add: handler_defs demo_defs)
  from start_game_no_questions [OF h1 h2 h3] h1 h2 h3 r show ?thesis
    by (simp add: fresh_game_def)
qed

section \<open>Joining\<close>

lemma sendQuestion_no_error:
  "sendQuestion p games = (msgs, ex) \<Longrightarrow> \<not> list_ex is_error msgs"
  by (auto simp: sendQuestion_def split: option.splits)

text \<open>C9. A \<^verbatim>\<open>join_game\<close> whose pin names no game, or a game that is not in the lobby,
  leaves the registry as it is and sends one \<^verbatim>\<open>error\<close> message to the requesting
  socket; and an event whose handler sends an \<^verbatim>\<open>error\<close> message is such a
  \<^verbatim>\<open>join_game\<close>.\<close>

theorem join_rejected_error:
  "(join_rejected games (JoinGame sid p nick) \<longrightarrow>
      join_game sid p nick games =
        \<lparr>server = games,
         effects = [socket_emit sid (error ''Game not found or already started'')],
         thrown = None\<rparr>)
   \<and> (\<forall>e r. step games e = Some r \<longrightarrow> list_ex is_error (effects r) \<longrightarrow> join_rejected games e)"
proof (intro conjI allI impI)
  assume "join_rejected games (JoinGame sid p nick)"
  then show "join_game sid p nick games =
        \<lparr>server = games,
         effects = [socket_emit sid (error ''Game not found or already started'')],
         thrown = None\<rparr>"
    by (auto simp: join_game_def split: option.splits)
next
  fix e r
  assume st: "step games e = Some r" and err: "list_ex is_error (effects r)"
  show "join_rejected games e"
  proof (cases e)
    case (CreateGame sid draws qs)
    with st err show ?thesis
      by (auto simp: create_game_def split: option.splits prod.splits)
  next
    case (StartGame sid q)
    with st err show ?thesis
      by (auto simp: start_game_def unchanged_def Let_def
            split: option.splits prod.splits if_splits dest: sendQuestion_no_error)
  next
    case (NextQuestion sid q)
    with st err show ?thesis
      by (auto simp: next_question_def unchanged_def Let_def
            split: option.splits prod.splits if_splits dest: sendQuestion_no_error)
  next
    case (ShowResults sid q)
    with st err show ?thesis
      by (auto simp: show_results_def unchanged_def Let_def
            split: option.splits prod.splits if_splits)
  next
    case (JoinGame sid q nick)
    with st err show ?thesis
      by (auto simp: join_game_def Let_def split: option.splits prod.splits if_splits)
  next
    case (SubmitAnswer sid q a t)
    with st err show ?thesis
      by (auto simp: submit_answer_def unchanged_def Let_def
            split: option.splits prod.splits if_splits)
  next
    case (Disconnect sid)
    with st err show ?thesis
      by (auto simp: disconnect_def unchanged_def Let_def
            split: option.splits prod.splits if_splits)
  qed
qed

text \<open>C9, at the sample game with question 0 open: a third socket asks to join and gets
  the error, the registry stays as it is; the host's \<^verbatim>\<open>start_game\<close> sends no error.\<close>

theorem join_rejected_error_witness:
  "join_rejected demo_round (JoinGame ''c'' ''482913'' ''Cy'')
   \<and> join_game ''c'' ''482913'' ''Cy'' demo_round =
       \<lparr>server = demo_round,
        effects = [socket_emit ''c'' (error ''Game not found or already started'')],
        thrown = None\<rparr>
   \<and> \<not> list_ex is_error (effects (start_game ''h'' ''482913'' demo_round))"
proof -
  have rej: "join_rejected demo_round (JoinGame ''c'' ''482913'' ''Cy'')"
    by (simp add: getGame_def demo_round_def demo_game_def)
  have st: "step demo_round (StartGame ''h'' ''482913'')
              = Some (start_game ''h'' ''482913'' demo_round)"
    by simp
  have "\<not> join_rejected demo_round (StartGame ''h'' ''482913'')"
    by simp
  with rej st join_rejected_error [of demo_round "''c''" "''482913''" "''Cy''"]
  show ?thesis
    by blast
qed

section \<open>The registry across one event\<close>

text \<open>What the loop of \<^verbatim>\<open>removePlayer\<close> can do to the registry: nothing, one player
  spliced out of one visited game, or one game deleted.\<close>

lemma scan_shape:
  "removePlayer_scan sid rest games = (res, games') \<Longrightarrow>
     games' = games \<or>
     (\<exists>p g k. (p, g) \<in> set rest \<and> findIndex (\<lambda>pl. id' pl = sid) (players g) = Some k \<and>
        games' = AList.update p (g\<lparr>players := splice1 k (players g)\<rparr>) games) \<or>
     (\<exists>p. games' = AList.delete p games)"
proof (induction rest)
  case Nil
  then show ?case by simp
next
  case (Cons a rest)
  obtain p g where a: "a = (p, g)" by (cases a)
  show ?case
  proof (cases "findIndex (\<lambda>pl. id' pl = sid) (players g)")
    case (Some k)
    with Cons.prems a show ?thesis by (auto simp: Let_def)
  next
    case None
    show ?thesis
    proof (cases "hostId g = sid")
      case True
      with None Cons.prems a show ?thesis by auto
    next
      case False
      with None Cons.prems a have "removePlayer_scan sid rest games = (res, games')" by simp
      from Cons.IH[OF this] show ?thesis by auto
    qed
  qed
qed

lemma removePlayer_shape:
  assumes "removePlayer sid games = (res, games')"
    and "distinct (map fst games)"
    and "getGame p games' = Some g'"
  shows "\<exists>g. getGame p games = Some g \<and>
           (g' = g \<or> (\<exists>k. g' = g\<lparr>players := splice1 k (players g)\<rparr>))"
proof -
  from assms(1) have "removePlayer_scan sid games games = (res, games')"
    by (simp add: removePlayer_def)
  from scan_shape[OF this] show ?thesis
  proof (elim disjE exE conjE)
    assume "games' = games"
    with assms(3) show ?thesis by simp
  next
    fix q g k
    assume q: "(q, g) \<in> set games"
      and upd: "games' = AList.update q (g\<lparr>players := splice1 k (players g)\<rparr>) games"
    from q assms(2) have "getGame q games = Some g"
      by (simp add: getGame_def)
    with upd assms(3) show ?thesis
      by (auto simp: getGame_update split: if_splits)
  next
    fix q
    assume "games' = AList.delete q games"
    with assms(3) show ?thesis
      by (auto simp: getGame_delete split: if_splits)
  qed
qed

lemma distinct_scan:
  "distinct (map fst games) \<Longrightarrow> distinct (map fst (snd (removePlayer_scan sid rest games)))"
  by (induction rest) (auto simp: Let_def distinct_update distinct_delete split: option.splits)

lemma distinct_step:
  "step games e = Some r \<Longrightarrow> distinct (map fst games) \<Longrightarrow> distinct (map fst (server r))"
proof (cases e)
  case (Disconnect sid)
  assume "step games e = Some r" "distinct (map fst games)"
  with Disconnect distinct_scan[of games sid games] show ?thesis
    by (auto simp: disconnect_def removePlayer_def unchanged_def
          split: prod.splits option.splits if_splits)
qed (auto simp: create_game_def createGame_def start_game_def next_question_def show_results_def
       join_game_def submit_answer_def addPlayer_def unchanged_def Let_def distinct_update
     split: option.splits prod.splits if_splits)

section \<open>Scores\<close>

lemma raised_refl: "raised pl pl"
  by (simp add: raised_def)

lemma scores_raised_refl: "scores_raised ps ps"
  unfolding scores_raised_def
  by (rule exI[of _ ps]) (simp add: list_all2_same raised_refl)

lemma scores_raised_sort: "scores_raised ps (js_sort ps)"
  unfolding scores_raised_def
  by (rule exI[of _ "js_sort ps"]) (simp add: list_all2_same raised_refl)

lemma mset_splice1: "mset (splice1 k xs) \<subseteq># mset xs"
proof (cases "k < length xs")
  case True
  then have "xs = take k xs @ xs ! k # drop (Suc k) xs"
    by (rule id_take_nth_drop)
  then have "mset xs = mset (take k xs @ xs ! k # drop (Suc k) xs)"
    by (rule arg_cong)
  also have "\<dots> = mset (splice1 k xs) + {#xs ! k#}"
    by (simp add: splice1_def)
  finally show ?thesis by simp
next
  case False
  then show ?thesis by (simp add: splice1_def)
qed

lemma scores_raised_splice: "scores_raised ps (splice1 k ps)"
  unfolding scores_raised_def
  by (rule exI[of _ "splice1 k ps"]) (simp add: list_all2_same raised_refl mset_splice1)

lemma find_mutate_raised:
  "(\<And>x. x \<in> set xs \<Longrightarrow> raised x (f x)) \<Longrightarrow> list_all2 raised xs (find_mutate P f xs)"
  by (induction xs) (auto simp: list_all2_same raised_refl)

lemma scores_raised_mutate:
  "(\<And>x. x \<in> set ps \<Longrightarrow> raised x (f x)) \<Longrightarrow> scores_raised ps (find_mutate P f ps)"
  unfolding scores_raised_def
  by (rule exI[of _ ps]) (simp add: find_mutate_raised)

lemma list_all_find_mutate:
  "list_all W xs \<Longrightarrow> (\<And>x. x \<in> set xs \<Longrightarrow> W (f x)) \<Longrightarrow> list_all W (find_mutate P f xs)"
  by (induction xs) auto

lemma list_all_splice1: "list_all W xs \<Longrightarrow> list_all W (splice1 k xs)"
  using set_splice1[of k xs] by (auto simp: list_all_iff)

lemma list_all_js_sort: "list_all W (js_sort xs) = list_all W xs"
  by (simp add: list_all_iff)

lemmas scores_raised_simps =
  scores_raised_refl scores_raised_sort scores_raised_splice

text \<open>The score of the sample game's first player after a correct answer of Ana.\<close>

lemma ana_correct_answer:
  "map_option (map score) (map_option players
     (getGame ''482913'' (server (submit_answer ''a'' ''482913'' 1 t demo_round))))
   = Some [num_add (Finite 0) (points (round64 t)), Finite 0]"
  by (simp add: handler_defs demo_defs)

lemma score_step:
  assumes "step games e = Some r"
    and "distinct (map fst games)"
    and "timeLeft_from (- 20) e"
    and "getGame p (server r) = Some g'"
    and "\<forall>g. getGame p games = Some g \<longrightarrow> list_all (\<lambda>pl. whole_score (score pl)) (players g)"
  shows "((\<exists>g. getGame p games = Some g \<and>
            (scores_raised (players g) (players g') \<or>
             (\<exists>sid nick. e = JoinGame sid p nick \<and>
                players g' = players g @
                  [\<lparr>id' = sid, nickname = nick, score = Finite 0, streak = 0\<rparr>])))
          \<or> (getGame p games = None \<and> players g' = []))
         \<and> list_all (\<lambda>pl. whole_score (score pl)) (players g')"
proof (cases e)
  case (Disconnect sid)
  obtain res games' where rp: "removePlayer sid games = (res, games')"
    by (cases "removePlayer sid games")
  with assms(1,4) Disconnect have "getGame p games' = Some g'"
    by (auto simp: disconnect_def unchanged_def split: option.splits if_splits)
  from removePlayer_shape[OF rp assms(2) this] assms(5) show ?thesis
    by (auto simp: scores_raised_simps list_all_splice1)
next
  case (CreateGame sid draws qs)
  with assms(1,4,5) fresh_pin_fresh[of draws games] show ?thesis
    by (auto simp: create_game_def createGame_def getGame_update scores_raised_simps
          split: option.splits if_splits)
next
  case (StartGame sid q)
  with assms(1,4,5) show ?thesis
    by (auto simp: start_game_def unchanged_def Let_def getGame_update scores_raised_simps
          split: option.splits prod.splits if_splits)
next
  case (NextQuestion sid q)
  with assms(1,4,5) show ?thesis
    by (auto simp: next_question_def unchanged_def Let_def getGame_update getLeaderboard_def
          scores_raised_simps list_all_js_sort split: option.splits prod.splits if_splits)
next
  case (ShowResults sid q)
  with assms(1,4,5) show ?thesis
    by (auto simp: show_results_def unchanged_def Let_def getGame_update getLeaderboard_def
          scores_raised_simps list_all_js_sort split: option.splits prod.splits if_splits)
next
  case (JoinGame sid q nick)
  with assms(1,4,5) show ?thesis
    by (auto simp: join_game_def addPlayer_def getGame_def[symmetric] Let_def getGame_update
          scores_raised_simps is_double_def round64_def split: option.splits prod.splits if_splits)
next
  case (SubmitAnswer sid q a t)
  with assms(3) have pts: "whole_score (points (round64 t))" by (simp add: points_whole)
  have up: "raised x (x\<lparr>score := num_add (score x) (points (round64 t)),
                         streak := streak x + 1\<rparr>)
            \<and> whole_score (num_add (score x) (points (round64 t)))"
    if "whole_score (score x)" for x
    using add_whole[OF that pts] by (simp add: raised_def)
  have down: "raised x (x\<lparr>streak := 0\<rparr>)" for x
    by (simp add: raised_def)
  show ?thesis
  proof (cases "getGame p (server r) = getGame p games")
    case True
    with assms(4,5) show ?thesis by (auto simp: scores_raised_refl)
  next
    case False
    with SubmitAnswer assms(1,4) obtain g where g: "getGame p games = Some g"
      and pg: "players g' = players g
               \<or> players g' = find_mutate (\<lambda>pl. id' pl = sid)
                    (\<lambda>pl. pl\<lparr>score := num_add (score pl) (points (round64 t)),
                             streak := streak pl + 1\<rparr>) (players g)
               \<or> players g' = find_mutate (\<lambda>pl. id' pl = sid) (\<lambda>pl. pl\<lparr>streak := 0\<rparr>) (players g)"
      by (auto simp: submit_answer_def unchanged_def Let_def getGame_update
            split: option.splits prod.splits if_splits)
    from assms(5) g have inv: "list_all (\<lambda>pl. whole_score (score pl)) (players g)" by simp
    then have mem: "whole_score (score x)" if "x \<in> set (players g)" for x
      using that by (simp add: list_all_iff)
    from pg show ?thesis
    proof (elim disjE)
      assume "players g' = players g"
      with g inv show ?thesis by (simp add: scores_raised_refl)
    next
      assume eq: "players g' = find_mutate (\<lambda>pl. id' pl = sid)
                    (\<lambda>pl. pl\<lparr>score := num_add (score pl) (points (round64 t)),
                             streak := streak pl + 1\<rparr>) (players g)"
      have "scores_raised (players g) (players g')"
        unfolding eq using up mem by (intro scores_raised_mutate) blast
      moreover have "list_all (\<lambda>pl. whole_score (score pl)) (players g')"
        unfolding eq using up mem inv by (intro list_all_find_mutate) simp_all
      ultimately show ?thesis using g by simp
    next
      assume eq: "players g' = find_mutate (\<lambda>pl. id' pl = sid) (\<lambda>pl. pl\<lparr>streak := 0\<rparr>) (players g)"
      have "scores_raised (players g) (players g')"
        unfolding eq using down by (intro scores_raised_mutate)
      moreover have "list_all (\<lambda>pl. whole_score (score pl)) (players g')"
        unfolding eq using mem inv by (intro list_all_find_mutate) simp_all
      ultimately show ?thesis using g by simp
    qed
  qed
qed




section \<open>The question index\<close>

lemma index_step:
  assumes "step games e = Some r"
    and "distinct (map fst games)"
    and "getGame p games = Some g"
    and "getGame p (server r) = Some g'"
    and "\<not> restarts p games e"
  shows "currentQuestionIndex g \<le> currentQuestionIndex g'"
proof (cases e)
  case (Disconnect sid)
  obtain res games' where rp: "removePlayer sid games = (res, games')"
    by (cases "removePlayer sid games")
  with assms(1,4) Disconnect have "getGame p games' = Some g'"
    by (auto simp: disconnect_def unchanged_def split: option.splits if_splits)
  from removePlayer_shape[OF rp assms(2) this] assms(3) show ?thesis by auto
next
  case (CreateGame sid draws qs)
  with assms(1,3,4) fresh_pin_fresh[of draws games] show ?thesis
    by (auto simp: create_game_def createGame_def getGame_update
          split: option.splits if_splits)
next
  case (StartGame sid q)
  with assms(1,3,4,5) show ?thesis
    by (auto simp: start_game_def unchanged_def Let_def getGame_update
          split: option.splits prod.splits if_splits)
next
  case (NextQuestion sid q)
  with assms(1,3,4) show ?thesis
    by (auto simp: next_question_def unchanged_def Let_def getGame_update getLeaderboard_def
          split: option.splits prod.splits if_splits)
next
  case (ShowResults sid q)
  with assms(1,3,4) show ?thesis
    by (auto simp: show_results_def unchanged_def Let_def getGame_update getLeaderboard_def
          split: option.splits prod.splits if_splits)
next
  case (JoinGame sid q nick)
  with assms(1,3,4) show ?thesis
    by (auto simp: join_game_def addPlayer_def getGame_def[symmetric] Let_def getGame_update
          split: option.splits prod.splits if_splits)
next
  case (SubmitAnswer sid q a t)
  with assms(1,3,4) show ?thesis
    by (auto simp: submit_answer_def unchanged_def Let_def getGame_update
          split: option.splits prod.splits if_splits)
qed

lemma index_run:
  assumes "run games evs = Some (games', x)"
    and "distinct (map fst games)"
    and "getGame p games = Some g"
    and "getGame p games' = Some g'"
    and "kept p games evs"
  shows "currentQuestionIndex g \<le> currentQuestionIndex g'"
  using assms
proof (induction evs arbitrary: games g)
  case Nil
  then show ?case by simp
next
  case (Cons e es)
  from Cons.prems(1) obtain r where r: "step games e = Some r"
    by (auto split: option.splits)
  from Cons.prems(5) r obtain g1 where g1: "getGame p (server r) = Some g1"
    by auto
  from Cons.prems(5) have nr: "\<not> restarts p games e" by simp
  have le1: "currentQuestionIndex g \<le> currentQuestionIndex g1"
    by (rule index_step[OF r Cons.prems(2,3) g1 nr])
  show ?case
  proof (cases "thrown r")
    case None
    with Cons.prems r have "run (server r) es = Some (games', x)" "kept p (server r) es"
      by auto
    from Cons.IH[OF this(1) distinct_step[OF r Cons.prems(2)] g1 Cons.prems(4) this(2)] le1
    show ?thesis by simp
  next
    case (Some y)
    with Cons.prems(1,4) r g1 le1 show ?thesis by auto
  qed
qed

lemma createGame_index:
  "createGame h draws games = Some (p, games') \<Longrightarrow>
     map_option currentQuestionIndex (getGame p games') = Some (- 1)"
  by (auto simp: createGame_def getGame_update split: option.splits)

lemma start_game_index:
  "getGame p games = Some g \<Longrightarrow> hostId g = sid \<Longrightarrow>
     map_option currentQuestionIndex (getGame p (server (start_game sid p games))) = Some 0"
  by (simp add: start_game_def Let_def getGame_update split: prod.splits)

lemma next_question_index:
  "getGame p games = Some g \<Longrightarrow> hostId g = sid \<Longrightarrow>
     map_option (\<lambda>g'. (currentQuestionIndex g', state g'))
       (getGame p (server (next_question sid p games)))
     = Some (currentQuestionIndex g + 1,
             if currentQuestionIndex g + 1 < int (length (questions g)) then QUESTION else END)"
  by (simp add: next_question_def Let_def getGame_update getLeaderboard_def split: prod.splits)

text \<open>C6, as the claim states it: the index never decreases, also under a
  \<^verbatim>\<open>start_game\<close> issued after the lobby, and it ends at \<^verbatim>\<open>questions.length\<close>. From the
  sample game with question 0 open, the host's \<^verbatim>\<open>next_question\<close> moves the index to 1
  and a \<^verbatim>\<open>start_game\<close> after it sets the index back to 0. And three \<^verbatim>\<open>next_question\<close>
  of the host move the index of the sample game, which has two questions, to 3: the
  second one ends the game with index 2 and the third one still adds 1.\<close>

theorem start_game_resets_index:
  "run demo_round [NextQuestion ''h'' ''482913''] =
     Some ([(''482913'', demo_game\<lparr>currentQuestionIndex := 1, answers := [(1, [])]\<rparr>)], None)
   \<and> run demo_round [NextQuestion ''h'' ''482913'', StartGame ''h'' ''482913''] =
     Some ([(''482913'', demo_game\<lparr>currentQuestionIndex := 0, answers := [(1, [])]\<rparr>)], None)
   \<and> length (questions demo_game) = 2
   \<and> run demo_round [NextQuestion ''h'' ''482913'', NextQuestion ''h'' ''482913''] =
     Some ([(''482913'', demo_game\<lparr>currentQuestionIndex := 2, state := END,
                                      answers := [(1, [])]\<rparr>)], None)
   \<and> run demo_round [NextQuestion ''h'' ''482913'', NextQuestion ''h'' ''482913'',
                     NextQuestion ''h'' ''482913''] =
     Some ([(''482913'', demo_game\<lparr>currentQuestionIndex := 3, state := END,
                                      answers := [(1, [])]\<rparr>)], None)"
  by (simp add: handler_defs demo_defs)

text \<open>C6, amended. A new game has index -1. Across every run of events during which
  the game stays registered and no \<^verbatim>\<open>start_game\<close> of its host arrives while its index
  is positive, the index at the end is at least the index at the start. In every state
  of the game, a \<^verbatim>\<open>start_game\<close> of its host sets the index to 0, and a
  \<^verbatim>\<open>next_question\<close> of its host adds 1 to the index, whatever the index is, also
  \<^verbatim>\<open>questions.length\<close> or more; the state after it is QUESTION when the new index is
  below \<^verbatim>\<open>questions.length\<close> and END otherwise.\<close>

theorem index_never_decreases:
  assumes "run games evs = Some (games', x)"
    and "distinct (map fst games)"
    and "getGame p games = Some g"
    and "getGame p games' = Some g'"
    and "kept p games evs"
  shows "currentQuestionIndex g \<le> currentQuestionIndex g'
         \<and> (\<forall>h draws games0 p0 games1. createGame h draws games0 = Some (p0, games1) \<longrightarrow>
               map_option currentQuestionIndex (getGame p0 games1) = Some (- 1))
         \<and> (\<forall>sid q games0 g0. getGame q games0 = Some g0 \<longrightarrow> hostId g0 = sid \<longrightarrow>
               map_option currentQuestionIndex (getGame q (server (start_game sid q games0)))
                 = Some 0)
         \<and> (\<forall>sid q games0 g0. getGame q games0 = Some g0 \<longrightarrow> hostId g0 = sid \<longrightarrow>
               map_option (\<lambda>g1. (currentQuestionIndex g1, state g1))
                 (getGame q (server (next_question sid q games0)))
               = Some (currentQuestionIndex g0 + 1,
                       if currentQuestionIndex g0 + 1 < int (length (questions g0))
                       then QUESTION else END))"
  using index_run[OF assms] createGame_index start_game_index next_question_index by blast

text \<open>C6, at the sample game in the lobby: the host starts the game, Ana answers, the
  host reveals the results and moves to question 1; the index goes from -1 to 1.\<close>

theorem index_never_decreases_witness:
  "run demo_lobby [StartGame ''h'' ''482913'', SubmitAnswer ''a'' ''482913'' 1 15,
                   ShowResults ''h'' ''482913'', NextQuestion ''h'' ''482913''] =
     Some ([(''482913'', demo_game
              \<lparr>players := [ana\<lparr>score := Finite 875, streak := 1\<rparr>, bo],
               currentQuestionIndex := 1, answers := [(0, [(''a'', 1)]), (1, [])]\<rparr>)], None)
   \<and> distinct (map fst demo_lobby)
   \<and> kept ''482913'' demo_lobby
        [StartGame ''h'' ''482913'', SubmitAnswer ''a'' ''482913'' 1 15,
         ShowResults ''h'' ''482913'', NextQuestion ''h'' ''482913'']
   \<and> currentQuestionIndex (demo_game\<lparr>currentQuestionIndex := - 1, state := LOBBY\<rparr>)
       \<le> currentQuestionIndex (demo_game
              \<lparr>players := [ana\<lparr>score := Finite 875, streak := 1\<rparr>, bo],
               currentQuestionIndex := 1, answers := [(0, [(''a'', 1)]), (1, [])]\<rparr>)"
proof -
  let ?evs = "[StartGame ''h'' ''482913'', SubmitAnswer ''a'' ''482913'' 1 15,
               ShowResults ''h'' ''482913'', NextQuestion ''h'' ''482913'']"
  let ?g = "demo_game\<lparr>currentQuestionIndex := - 1, state := LOBBY\<rparr>"
  let ?g' = "demo_game\<lparr>players := [ana\<lparr>score := Finite 875, streak := 1\<rparr>, bo],
               currentQuestionIndex := 1, answers := [(0, [(''a'', 1)]), (1, [])]\<rparr>"
  have h1: "run demo_lobby ?evs = Some ([(''482913'', ?g')], None)"
    by (simp add: handler_defs demo_defs)
  have h2: "distinct (map fst demo_lobby)"
    by (simp add: demo_lobby_def)
  have h3: "getGame ''482913'' demo_lobby = Some ?g"
    by (simp add: getGame_def demo_lobby_def)
  have h4: "getGame ''482913'' [(''482913'', ?g')] = Some ?g'"
    by (simp add: getGame_def)
  have h5: "kept ''482913'' demo_lobby ?evs"
    by (simp add: handler_defs demo_defs)
  from index_never_decreases [OF h1 h2 h3 h4 h5] h1 h2 h5 show ?thesis
    by blast
qed

section \<open>The host and the players\<close>

lemma host_step:
  assumes "step games e = Some r"
    and "distinct (map fst games)"
    and "\<forall>g. getGame p games = Some g \<longrightarrow> host_not_player g"
    and "\<not> host_joins p games e"
    and "getGame p (server r) = Some g'"
  shows "host_not_player g'"
proof (cases e)
  case (Disconnect sid)
  obtain res games' where rp: "removePlayer sid games = (res, games')"
    by (cases "removePlayer sid games")
  with assms(1,5) Disconnect have "getGame p games' = Some g'"
    by (auto simp: disconnect_def unchanged_def split: option.splits if_splits)
  from removePlayer_shape[OF rp assms(2) this] assms(3) show ?thesis
    using set_splice1 by (fastforce simp: host_not_player_def)
next
  case (CreateGame sid draws qs)
  with assms(1,3,5) fresh_pin_fresh[of draws games] show ?thesis
    by (auto simp: create_game_def createGame_def getGame_update host_not_player_def
          split: option.splits if_splits)
next
  case (StartGame sid q)
  with assms(1,3,5) show ?thesis
    by (auto simp: start_game_def unchanged_def Let_def getGame_update host_not_player_def
          split: option.splits prod.splits if_splits)
next
  case (NextQuestion sid q)
  with assms(1,3,5) show ?thesis
    by (auto simp: next_question_def unchanged_def Let_def getGame_update getLeaderboard_def
          host_not_player_def split: option.splits prod.splits if_splits)
next
  case (ShowResults sid q)
  with assms(1,3,5) show ?thesis
    by (auto simp: show_results_def unchanged_def Let_def getGame_update getLeaderboard_def
          host_not_player_def split: option.splits prod.splits if_splits)
next
  case (JoinGame sid q nick)
  with assms(1,3,4,5) show ?thesis
    by (auto simp: join_game_def addPlayer_def getGame_def[symmetric] Let_def getGame_update
          host_not_player_def split: option.splits prod.splits if_splits)
next
  case (SubmitAnswer sid q a t)
  with assms(1,5) have "\<exists>g. getGame p games = Some g \<and> hostId g' = hostId g
                          \<and> map id' (players g') = map id' (players g)"
    by (auto simp: submit_answer_def unchanged_def Let_def getGame_update find_mutate_ids
          split: option.splits prod.splits if_splits)
  with assms(3) show ?thesis
    by (auto simp only: host_not_player_def)
qed

lemma host_run:
  assumes "run games evs = Some (games', x)"
    and "distinct (map fst games)"
    and "\<forall>g. getGame p games = Some g \<longrightarrow> host_not_player g"
    and "no_host_join p games evs"
    and "getGame p games' = Some g'"
  shows "host_not_player g'"
  using assms
proof (induction evs arbitrary: games)
  case Nil
  then show ?case by simp
next
  case (Cons e es)
  from Cons.prems(1) obtain r where r: "step games e = Some r"
    by (auto split: option.splits)
  from Cons.prems(4) have nj: "\<not> host_joins p games e" by simp
  have inv: "\<forall>g. getGame p (server r) = Some g \<longrightarrow> host_not_player g"
    using host_step[OF r Cons.prems(2,3) nj] by blast
  show ?case
  proof (cases "thrown r")
    case None
    with Cons.prems r have "run (server r) es = Some (games', x)" "no_host_join p (server r) es"
      by auto
    from Cons.IH[OF this(1) distinct_step[OF r Cons.prems(2)] inv this(2) Cons.prems(5)]
    show ?thesis .
  next
    case (Some y)
    with Cons.prems(1,5) r inv show ?thesis by auto
  qed
qed

lemma host_join_accepted:
  "getGame p games = Some g \<Longrightarrow> state g = LOBBY \<Longrightarrow> hostId g = sid \<Longrightarrow>
     map_option (\<lambda>g'. (players g', host_not_player g'))
       (getGame p (server (join_game sid p nick games)))
     = Some (players g @ [\<lparr>id' = sid, nickname = nick, score = Finite 0, streak = 0\<rparr>], False)"
  by (simp add: join_game_def addPlayer_def getGame_def[symmetric] Let_def getGame_update
        host_not_player_def)

text \<open>C7, as the claim states it: the host is never among the players, also when the
  host's own socket joins in the lobby. From the empty registry, socket \<open>h\<close> creates a
  game and joins it: the handler accepts, and the host is a player of its game.\<close>

theorem host_can_join_own_game:
  "run [] [CreateGame ''h'' [''482913''] demo_quiz, JoinGame ''h'' ''482913'' ''Hal''] =
     Some ([(''482913'', (fresh_game ''482913'' ''h'')
              \<lparr>players := [\<lparr>id' = ''h'', nickname = ''Hal'', score = Finite 0, streak = 0\<rparr>]\<rparr>)],
           None)
   \<and> \<not> host_not_player ((fresh_game ''482913'' ''h'')
              \<lparr>players := [\<lparr>id' = ''h'', nickname = ''Hal'', score = Finite 0, streak = 0\<rparr>]\<rparr>)"
  by (simp add: handler_defs demo_defs host_not_player_def)

text \<open>C7, amended. Take a game that is not registered or whose host is not among its
  players, and a run of events in which no \<^verbatim>\<open>join_game\<close> into this game comes from the
  socket that hosts it while it is in the lobby. If the game is registered after the run,
  its host is not among its players. And in every registry, a \<^verbatim>\<open>join_game\<close> into a game
  in the lobby from the socket that hosts it is accepted: the players of the game are
  then the players before it followed by a new player with the host's socket id, and the
  host is among them.\<close>

theorem host_never_participant:
  assumes "run games evs = Some (games', x)"
    and "distinct (map fst games)"
    and "\<forall>g. getGame p games = Some g \<longrightarrow> host_not_player g"
    and "no_host_join p games evs"
    and "getGame p games' = Some g'"
  shows "host_not_player g'
         \<and> (\<forall>sid q nick games0 g0.
               getGame q games0 = Some g0 \<longrightarrow> state g0 = LOBBY \<longrightarrow> hostId g0 = sid \<longrightarrow>
               map_option (\<lambda>g1. (players g1, host_not_player g1))
                 (getGame q (server (join_game sid q nick games0)))
               = Some (players g0 @
                         [\<lparr>id' = sid, nickname = nick, score = Finite 0, streak = 0\<rparr>], False))"
  using host_run[OF assms] host_join_accepted by blast

text \<open>C7, from the empty registry: the run that creates the sample game, lets Ana and Bo
  join and starts it.\<close>

theorem host_never_participant_witness:
  "run [] [CreateGame ''h'' [''482913''] demo_quiz, JoinGame ''a'' ''482913'' ''Ana'',
           JoinGame ''b'' ''482913'' ''Bo'', StartGame ''h'' ''482913'']
     = Some (demo_round, None)
   \<and> distinct (map fst ([] :: registry))
   \<and> getGame ''482913'' [] = None
   \<and> no_host_join ''482913'' []
        [CreateGame ''h'' [''482913''] demo_quiz, JoinGame ''a'' ''482913'' ''Ana'',
         JoinGame ''b'' ''482913'' ''Bo'', StartGame ''h'' ''482913'']
   \<and> getGame ''482913'' demo_round = Some demo_game
   \<and> host_not_player demo_game"
proof -
  let ?evs = "[CreateGame ''h'' [''482913''] demo_quiz, JoinGame ''a'' ''482913'' ''Ana'',
               JoinGame ''b'' ''482913'' ''Bo'', StartGame ''h'' ''482913'']"
  have h1: "run [] ?evs = Some (demo_round, None)"
    by (rule demo_round_reachable)
  have h2: "distinct (map fst ([] :: registry))"
    by simp
  have none: "getGame ''482913'' [] = None"
    by (simp add: getGame_def)
  then have h3: "\<forall>g. getGame ''482913'' [] = Some g \<longrightarrow> host_not_player g"
    by simp
  have h4: "no_host_join ''482913'' [] ?evs"
    by (simp add: handler_defs demo_defs)
  have h5: "getGame ''482913'' demo_round = Some demo_game"
    by (simp add: getGame_def demo_round_def)
  from host_never_participant [OF h1 h2 h3 h4 h5] h1 h2 none h4 h5 show ?thesis
    by blast
qed

section \<open>Disconnecting\<close>

lemma scan_skip:
  assumes "\<forall>(p, g') \<in> set before.
             hostId g' \<noteq> sid \<and> findIndex (\<lambda>pl. id' pl = sid) (players g') = None"
  shows "removePlayer_scan sid (before @ rest) games = removePlayer_scan sid rest games"
  using assms by (induction before) auto

text \<open>A socket that hosts two games and plays in none: \<open>h\<close> hosts 111111 and 222222,
  created in that order. Its disconnect stops at 111111, deletes it and reports the host
  of 111111 gone; 222222 stays registered with \<open>h\<close> as its host.\<close>

lemma host_of_two_games_disconnects:
  "map_option hostId (getGame ''222222'' demo_two) = Some ''h''
   \<and> map_option players (getGame ''111111'' demo_two) = Some []
   \<and> map_option players (getGame ''222222'' demo_two) = Some []
   \<and> disconnect ''h'' demo_two =
       \<lparr>server = [(''222222'', fresh_game ''222222'' ''h'')],
        effects = [io_to ''111111'' host_disconnected], thrown = None\<rparr>
   \<and> getGame ''222222'' (server (disconnect ''h'' demo_two))
       = Some (fresh_game ''222222'' ''h'')"
  by (simp add: handler_defs demo_defs)




end
